theory Spec2Isabelle
  imports Complex_Main
begin

section \<open>The transform hierarchy of goo/entities/components/TransformComponent.js\<close>

text \<open>
  A TransformComponent is a JavaScript object with identity: other components point to it
  through \<open>parent\<close> and \<open>children\<close>. The model keeps all components in a store indexed by
  natural numbers (the object references); a method call \<open>p.attachChild(c, k)\<close> becomes
  \<open>attachChild M s p c k\<close> on the store \<open>s\<close>, returning the new store.

  The classes Vector3, Matrix3x3, Matrix4x4 and Transform (goo/math) are used by the
  component but their code is not part of the sources at hand. Their operations are taken as
  a parameter \<open>M\<close> of every function of the model; scalars (JavaScript numbers), rotation
  matrices and 4x4 matrices are type parameters \<open>'a\<close>, \<open>'r\<close> and \<open>'m\<close>.
\<close>

subsection \<open>Data\<close>

datatype 'a Vector3 = Vector3 (vx: 'a) (vy: 'a) (vz: 'a)

text \<open>The fields of a Transform that the component reads and writes.\<close>

record ('a, 'r, 'm) Transform =
  translation :: "'a Vector3"
  rotation :: 'r
  scale :: "'a Vector3"
  matrix :: 'm
  normalMatrix :: 'm

text \<open>
  The fields set by the constructor \<open>TransformComponent()\<close>; \<open>dirty\<close> and \<open>updated\<close> are
  the source's \<open>_dirty\<close> and \<open>_updated\<close>. The fields \<open>type\<close> and \<open>entity\<close> play no role in
  the hierarchy and are left out.
\<close>

record ('a, 'r, 'm) TransformComponent =
  parent :: "nat option"
  children :: "nat list"
  transform :: "('a, 'r, 'm) Transform"
  worldTransform :: "('a, 'r, 'm) Transform"
  dirty :: bool
  updated :: bool

text \<open>The store of all components, and the lines written by \<open>console.warn\<close>.\<close>

record ('a, 'r, 'm) Scene =
  components :: "nat \<Rightarrow> ('a, 'r, 'm) TransformComponent"
  console :: "string list"

text \<open>
  A JavaScript value as it can appear in \<open>arguments\<close> of the mutators: a number, the
  not-a-number result of arithmetic on something that is not a number, a Vector3, an array,
  or \<open>undefined\<close> (also what reading \<open>arguments[i]\<close> past the end gives).
\<close>

datatype 'a jsval = Num 'a | NaN | Vec "'a Vector3" | Arr "'a jsval list" | Undefined

text \<open>
  Modelled from the spec: the operations of goo/math that the component calls, whose code
  is missing. The spec gives \<open>compose(parentWorld, local) -> world\<close>, \<open>invert() -> Transform\<close>
  and \<open>update()\<close> as functions of their arguments with no other effect; \<open>copy\<close> is the
  assignment of the value. The setters take the argument shapes as they come.
\<close>

record ('a, 'r, 'm) Math =
  Transform_new :: "('a, 'r, 'm) Transform"
  Transform_multiply :: "('a, 'r, 'm) Transform \<Rightarrow> ('a, 'r, 'm) Transform \<Rightarrow> ('a, 'r, 'm) Transform"
  Transform_invert :: "('a, 'r, 'm) Transform \<Rightarrow> ('a, 'r, 'm) Transform"
  Transform_update :: "('a, 'r, 'm) Transform \<Rightarrow> ('a, 'r, 'm) Transform"
  Transform_lookAt :: "('a, 'r, 'm) Transform \<Rightarrow> 'a jsval \<Rightarrow> 'a jsval \<Rightarrow> ('a, 'r, 'm) Transform"
  Matrix4x4_invert :: "'m \<Rightarrow> 'm"
  Matrix4x4_transpose :: "'m \<Rightarrow> 'm"
  Matrix3x3_fromAngles :: "'r \<Rightarrow> 'a jsval \<Rightarrow> 'a jsval \<Rightarrow> 'a jsval \<Rightarrow> 'r"
  Matrix3x3_toAngles :: "'r \<Rightarrow> 'a Vector3"
  Vector3_new :: "'a jsval list \<Rightarrow> 'a Vector3"
  Vector3_set :: "'a Vector3 \<Rightarrow> 'a jsval list \<Rightarrow> 'a Vector3"
  Vector3_add :: "'a Vector3 \<Rightarrow> 'a jsval \<Rightarrow> 'a Vector3"

subsection \<open>The constructor and the store\<close>

definition newTransformComponent :: "('a, 'r, 'm) Math \<Rightarrow> ('a, 'r, 'm) TransformComponent" where
  "newTransformComponent M =
     \<lparr>parent = None, children = [], transform = Transform_new M,
      worldTransform = Transform_new M, dirty = True, updated = False\<rparr>"

text \<open>The store in which every reference denotes a freshly constructed component.\<close>

definition freshScene :: "('a, 'r, 'm) Math \<Rightarrow> ('a, 'r, 'm) Scene" where
  "freshScene M = \<lparr>components = (\<lambda>_. newTransformComponent M), console = []\<rparr>"

text \<open>A write to the fields of the object \<open>n\<close>.\<close>

definition modify ::
  "nat \<Rightarrow> (('a, 'r, 'm) TransformComponent \<Rightarrow> ('a, 'r, 'm) TransformComponent)
     \<Rightarrow> ('a, 'r, 'm) Scene \<Rightarrow> ('a, 'r, 'm) Scene" where
  "modify n f s = s\<lparr>components := (components s)(n := f (components s n))\<rparr>"

definition warn :: "string \<Rightarrow> ('a, 'r, 'm) Scene \<Rightarrow> ('a, 'r, 'm) Scene" where
  "warn msg s = s\<lparr>console := console s @ [msg]\<rparr>"

subsection \<open>Reading \<open>arguments\<close>\<close>

definition arg :: "'a jsval list \<Rightarrow> nat \<Rightarrow> 'a jsval" where
  "arg args i = (if i < length args then args ! i else Undefined)"

text \<open>\<open>typeof v === 'object'\<close> on the values of the model.\<close>

fun isObject :: "'a jsval \<Rightarrow> bool" where
  "isObject (Vec _) = True"
| "isObject (Arr _) = True"
| "isObject _ = False"

fun isArray :: "'a jsval \<Rightarrow> bool" where
  "isArray (Arr _) = True"
| "isArray _ = False"

text \<open>\<open>t + v\<close> for a number \<open>t\<close>: a number when \<open>v\<close> is one, not a number otherwise.\<close>

fun jsPlus :: "'a::plus \<Rightarrow> 'a jsval \<Rightarrow> 'a jsval" where
  "jsPlus t (Num v) = Num (t + v)"
| "jsPlus t _ = NaN"

subsection \<open>The mutators of the local transform\<close>

definition setTranslation ::
  "('a, 'r, 'm) Math \<Rightarrow> ('a, 'r, 'm) Scene \<Rightarrow> nat \<Rightarrow> 'a jsval list \<Rightarrow> ('a, 'r, 'm) Scene" where
  "setTranslation M s this args =
     modify this (\<lambda>c. c\<lparr>transform := (transform c)
         \<lparr>translation := Vector3_set M (translation (transform c)) [Arr args]\<rparr>,
       dirty := True\<rparr>) s"

definition setScale ::
  "('a, 'r, 'm) Math \<Rightarrow> ('a, 'r, 'm) Scene \<Rightarrow> nat \<Rightarrow> 'a jsval list \<Rightarrow> ('a, 'r, 'm) Scene" where
  "setScale M s this args =
     modify this (\<lambda>c. c\<lparr>transform := (transform c)
         \<lparr>scale := Vector3_set M (scale (transform c)) [Arr args]\<rparr>,
       dirty := True\<rparr>) s"

definition addTranslation ::
  "('a, 'r, 'm) Math \<Rightarrow> ('a, 'r, 'm) Scene \<Rightarrow> nat \<Rightarrow> 'a jsval list \<Rightarrow> ('a, 'r, 'm) Scene" where
  "addTranslation M s this args =
     modify this (\<lambda>c. c\<lparr>transform := (transform c)
         \<lparr>translation :=
            (if length args = 3 then Vector3_add M (translation (transform c)) (Arr args)
             else Vector3_add M (translation (transform c)) (arg args 0))\<rparr>,
       dirty := True\<rparr>) s"

text \<open>
  \<open>setRotation\<close>: one object argument is a Vector3 or something with \<open>length === 3\<close>;
  an object of another length writes nothing. Anything else is read as three scalars.
\<close>

definition setRotationValue ::
  "('a, 'r, 'm) Math \<Rightarrow> 'r \<Rightarrow> 'a jsval list \<Rightarrow> 'r" where
  "setRotationValue M r args =
     (if length args = 1 \<and> isObject (arg args 0) then
        (case arg args 0 of
           Vec v \<Rightarrow> Matrix3x3_fromAngles M r (Num (vx v)) (Num (vy v)) (Num (vz v))
         | Arr xs \<Rightarrow>
             (if length xs = 3 then Matrix3x3_fromAngles M r (xs ! 0) (xs ! 1) (xs ! 2) else r)
         | _ \<Rightarrow> r)
      else Matrix3x3_fromAngles M r (arg args 0) (arg args 1) (arg args 2))"

definition setRotation ::
  "('a, 'r, 'm) Math \<Rightarrow> ('a, 'r, 'm) Scene \<Rightarrow> nat \<Rightarrow> 'a jsval list \<Rightarrow> ('a, 'r, 'm) Scene" where
  "setRotation M s this args =
     modify this (\<lambda>c. c\<lparr>transform := (transform c)
         \<lparr>rotation := setRotationValue M (rotation (transform c)) args\<rparr>,
       dirty := True\<rparr>) s"

text \<open>\<open>addRotation\<close> reads the current angles into \<open>tmpVec\<close> first.\<close>

definition addRotationValue ::
  "('a::plus, 'r, 'm) Math \<Rightarrow> 'r \<Rightarrow> 'a jsval list \<Rightarrow> 'r" where
  "addRotationValue M r args =
     (let tmpVec = Matrix3x3_toAngles M r in
      if length args = 1 \<and> isObject (arg args 0) then
        (case arg args 0 of
           Vec v \<Rightarrow> Matrix3x3_fromAngles M r
             (Num (vx tmpVec + vx v)) (Num (vy tmpVec + vy v)) (Num (vz tmpVec + vz v))
         | Arr xs \<Rightarrow>
             (if length xs = 3 then Matrix3x3_fromAngles M r
                (jsPlus (vx tmpVec) (xs ! 0)) (jsPlus (vy tmpVec) (xs ! 1))
                (jsPlus (vz tmpVec) (xs ! 2))
              else r)
         | _ \<Rightarrow> r)
      else Matrix3x3_fromAngles M r
        (jsPlus (vx tmpVec) (arg args 0)) (jsPlus (vy tmpVec) (arg args 1))
        (jsPlus (vz tmpVec) (arg args 2)))"

definition addRotation ::
  "('a::plus, 'r, 'm) Math \<Rightarrow> ('a, 'r, 'm) Scene \<Rightarrow> nat \<Rightarrow> 'a jsval list \<Rightarrow> ('a, 'r, 'm) Scene" where
  "addRotation M s this args =
     modify this (\<lambda>c. c\<lparr>transform := (transform c)
         \<lparr>rotation := addRotationValue M (rotation (transform c)) args\<rparr>,
       dirty := True\<rparr>) s"

text \<open>\<open>lookAt(position, up)\<close>: three arguments are the coordinates of the target.\<close>

definition lookAtValue ::
  "('a, 'r, 'm) Math \<Rightarrow> ('a, 'r, 'm) Transform \<Rightarrow> 'a jsval list \<Rightarrow> ('a, 'r, 'm) Transform" where
  "lookAtValue M t args =
     (if length args = 3 then
        Transform_lookAt M t (Vec (Vector3_new M [arg args 0, arg args 1, arg args 2])) Undefined
      else
        (let position = (if isArray (arg args 0) then Vec (Vector3_new M [arg args 0])
                         else arg args 0);
             up = (if isArray (arg args 1) then Vec (Vector3_new M [arg args 1])
                   else arg args 1)
         in Transform_lookAt M t position up))"

definition lookAt ::
  "('a, 'r, 'm) Math \<Rightarrow> ('a, 'r, 'm) Scene \<Rightarrow> nat \<Rightarrow> 'a jsval list \<Rightarrow> ('a, 'r, 'm) Scene" where
  "lookAt M s this args =
     modify this (\<lambda>c. c\<lparr>transform := lookAtValue M (transform c) args, dirty := True\<rparr>) s"

subsection \<open>Updating the cached transforms\<close>

definition updateTransform ::
  "('a, 'r, 'm) Math \<Rightarrow> ('a, 'r, 'm) Scene \<Rightarrow> nat \<Rightarrow> ('a, 'r, 'm) Scene" where
  "updateTransform M s this =
     modify this (\<lambda>c. c\<lparr>transform := Transform_update M (transform c)\<rparr>) s"

text \<open>The world transform before its normal matrix is set: the first \<open>if\<close> of the method.\<close>

definition composedWorld ::
  "('a, 'r, 'm) Math \<Rightarrow> ('a, 'r, 'm) Scene \<Rightarrow> nat \<Rightarrow> ('a, 'r, 'm) Transform" where
  "composedWorld M s this =
     (case parent (components s this) of
        Some p \<Rightarrow> Transform_multiply M (worldTransform (components s p))
                    (transform (components s this))
      | None \<Rightarrow> transform (components s this))"

text \<open>The second \<open>if\<close>: the normal matrix from the scale of the world transform.\<close>

definition withNormalMatrix ::
  "('a, 'r, 'm) Math \<Rightarrow> ('a, 'r, 'm) Transform \<Rightarrow> ('a, 'r, 'm) Transform" where
  "withNormalMatrix M w =
     (if vx (scale w) \<noteq> vy (scale w) \<or> vx (scale w) \<noteq> vz (scale w)
      then w\<lparr>normalMatrix := Matrix4x4_transpose M (Matrix4x4_invert M (matrix w))\<rparr>
      else w\<lparr>normalMatrix := matrix w\<rparr>)"

definition updateWorldTransform ::
  "('a, 'r, 'm) Math \<Rightarrow> ('a, 'r, 'm) Scene \<Rightarrow> nat \<Rightarrow> ('a, 'r, 'm) Scene" where
  "updateWorldTransform M s this =
     modify this (\<lambda>c. c\<lparr>worldTransform := withNormalMatrix M (composedWorld M s this),
       dirty := False, updated := True\<rparr>) s"

subsection \<open>Attaching and detaching\<close>

text \<open>\<open>Array.prototype.indexOf\<close>; \<open>None\<close> is the source's \<open>-1\<close>.\<close>

fun indexOf :: "'b list \<Rightarrow> 'b \<Rightarrow> nat option" where
  "indexOf [] y = None"
| "indexOf (x # xs) y = (if x = y then Some 0 else map_option Suc (indexOf xs y))"

text \<open>\<open>xs.splice(i, 1)\<close>.\<close>

definition splice1 :: "nat \<Rightarrow> 'b list \<Rightarrow> 'b list" where
  "splice1 i xs = take i xs @ drop (Suc i) xs"

definition detachChild ::
  "('a, 'r, 'm) Math \<Rightarrow> ('a, 'r, 'm) Scene \<Rightarrow> nat \<Rightarrow> nat \<Rightarrow> bool \<Rightarrow> ('a, 'r, 'm) Scene" where
  "detachChild M s this childComponent keepTransform =
     (if childComponent = this then
        warn ''attachChild: An object can't be removed from itself.'' s
      else
        (let s1 = (if keepTransform then
                     modify childComponent (\<lambda>c. c\<lparr>transform := worldTransform c\<rparr>) s
                   else s)
         in case indexOf (children (components s1 this)) childComponent of
              None \<Rightarrow> s1
            | Some index \<Rightarrow>
                modify this (\<lambda>c. c\<lparr>children := splice1 index (children c)\<rparr>)
                  (modify childComponent (\<lambda>c. c\<lparr>parent := None\<rparr>) s1)))"

text \<open>
  The \<open>while (component)\<close> loop of \<open>attachChild\<close>: it walks the parent pointers from
  \<open>this\<close> and answers whether it met \<open>childComponent\<close>. On a cyclic chain of parents that
  does not contain the child it never returns; that is the value \<open>None\<close>.
\<close>

partial_function (option) ancestorLoop ::
  "('a, 'r, 'm) Scene \<Rightarrow> nat option \<Rightarrow> nat \<Rightarrow> bool option" where
  "ancestorLoop s component childComponent =
     (case component of
        None \<Rightarrow> Some False
      | Some c \<Rightarrow>
          (if c = childComponent then Some True
           else ancestorLoop s (parent (components s c)) childComponent))"

declare ancestorLoop.simps [code]

definition keepWorld ::
  "('a, 'r, 'm) Math \<Rightarrow> ('a, 'r, 'm) Scene \<Rightarrow> nat \<Rightarrow> nat \<Rightarrow> ('a, 'r, 'm) Scene" where
  "keepWorld M s this childComponent =
     (let s1 = updateTransform M s childComponent;
          s2 = updateTransform M s1 this;
          s3 = updateWorldTransform M s2 this
      in modify childComponent (\<lambda>c. c\<lparr>transform :=
           Transform_multiply M (Transform_invert M (worldTransform (components s3 this)))
             (transform c)\<rparr>) s3)"

definition attachChild ::
  "('a, 'r, 'm) Math \<Rightarrow> ('a, 'r, 'm) Scene \<Rightarrow> nat \<Rightarrow> nat \<Rightarrow> bool
     \<Rightarrow> ('a, 'r, 'm) Scene option" where
  "attachChild M s this childComponent keepTransform =
     (case ancestorLoop s (Some this) childComponent of
        None \<Rightarrow> None
      | Some True \<Rightarrow>
          Some (warn ''attachChild: An object can't be added as a descendant of itself.'' s)
      | Some False \<Rightarrow>
          (let s1 = (case parent (components s childComponent) of
                       Some p \<Rightarrow> detachChild M s p childComponent False
                     | None \<Rightarrow> s);
               s2 = (if keepTransform then keepWorld M s1 this childComponent else s1)
           in Some (modify this (\<lambda>c. c\<lparr>children := children c @ [childComponent]\<rparr>)
                     (modify childComponent (\<lambda>c. c\<lparr>parent := Some this\<rparr>) s2))))"

subsection \<open>The propagation pass\<close>

text \<open>
  Modelled from the spec: the propagation pass (section 4.3), whose code is missing. It
  recomputes the local transforms of the nodes marked dirty, then the world transforms in
  parent-before-child order. \<open>ns\<close> lists the nodes to visit, every parent before its children.
\<close>

definition updateIfDirty ::
  "('a, 'r, 'm) Math \<Rightarrow> ('a, 'r, 'm) Scene \<Rightarrow> nat \<Rightarrow> ('a, 'r, 'm) Scene" where
  "updateIfDirty M s n = (if dirty (components s n) then updateTransform M s n else s)"

definition propagationPass ::
  "('a, 'r, 'm) Math \<Rightarrow> ('a, 'r, 'm) Scene \<Rightarrow> nat list \<Rightarrow> ('a, 'r, 'm) Scene" where
  "propagationPass M s ns = foldl (updateWorldTransform M) (foldl (updateIfDirty M) s ns) ns"

subsection \<open>Sequences of attach and detach calls\<close>

datatype call = Attach nat nat bool | Detach nat nat bool

fun run ::
  "('a, 'r, 'm) Math \<Rightarrow> call list \<Rightarrow> ('a, 'r, 'm) Scene \<Rightarrow> ('a, 'r, 'm) Scene option" where
  "run M [] s = Some s"
| "run M (Attach p c k # cs) s =
     (case attachChild M s p c k of None \<Rightarrow> None | Some s' \<Rightarrow> run M cs s')"
| "run M (Detach p c k # cs) s = run M cs (detachChild M s p c k)"

subsection \<open>The shape of the hierarchy\<close>

definition parentOf :: "('a, 'r, 'm) Scene \<Rightarrow> nat \<Rightarrow> nat option" where
  "parentOf s n = parent (components s n)"

definition childrenOf :: "('a, 'r, 'm) Scene \<Rightarrow> nat \<Rightarrow> nat list" where
  "childrenOf s n = children (components s n)"

text \<open>\<open>a\<close> is \<open>n\<close> or one of the ancestors of \<open>n\<close> along the parent pointers \<open>P\<close>.\<close>

inductive ancestorOrSelf :: "(nat \<Rightarrow> nat option) \<Rightarrow> nat \<Rightarrow> nat \<Rightarrow> bool"
  for P :: "nat \<Rightarrow> nat option" where
  self: "ancestorOrSelf P n n"
| step: "P n = Some p \<Longrightarrow> ancestorOrSelf P p a \<Longrightarrow> ancestorOrSelf P n a"

text \<open>The chain of parents of \<open>n\<close> ends in a node without parent.\<close>

inductive rooted :: "(nat \<Rightarrow> nat option) \<Rightarrow> nat \<Rightarrow> bool"
  for P :: "nat \<Rightarrow> nat option" where
  root: "P n = None \<Longrightarrow> rooted P n"
| up: "P n = Some p \<Longrightarrow> rooted P p \<Longrightarrow> rooted P n"

text \<open>
  The two cases of the tree invariant for one node: no parent and in no child list, or one
  parent, once in that parent's child list and in no other.
\<close>

definition detached :: "('a, 'r, 'm) Scene \<Rightarrow> nat \<Rightarrow> bool" where
  "detached s n \<longleftrightarrow> parentOf s n = None \<and> (\<forall>q. n \<notin> set (childrenOf s q))"

definition attachedTo :: "('a, 'r, 'm) Scene \<Rightarrow> nat \<Rightarrow> nat \<Rightarrow> bool" where
  "attachedTo s n p \<longleftrightarrow>
     parentOf s n = Some p \<and> count_list (childrenOf s p) n = 1
     \<and> (\<forall>q. q \<noteq> p \<longrightarrow> n \<notin> set (childrenOf s q))"

definition treeInv :: "('a, 'r, 'm) Scene \<Rightarrow> bool" where
  "treeInv s \<longleftrightarrow>
     (\<forall>n p. parentOf s n = Some p \<longrightarrow> count_list (childrenOf s p) n = 1)
     \<and> (\<forall>n q. n \<in> set (childrenOf s q) \<longrightarrow> parentOf s n = Some q)
     \<and> (\<forall>n. rooted (parentOf s) n)"

text \<open>
  The store after the first step of an accepted \<open>attachChild\<close>: the child taken out of
  its old parent, if it has one.
\<close>

definition unlinked :: "('a, 'r, 'm) Math \<Rightarrow> ('a, 'r, 'm) Scene \<Rightarrow> nat \<Rightarrow> ('a, 'r, 'm) Scene" where
  "unlinked M s c = (case parentOf s c of Some q \<Rightarrow> detachChild M s q c False | None \<Rightarrow> s)"

subsection \<open>A math module for evaluation\<close>

text \<open>
  Modelled from the spec: a concrete goo/math, used to run the model on concrete scenes. It is
  exact (rational numbers) and covers the transforms without rotation: translation and scale
  along the axes. A 4x4 matrix is the list of its rows; \<open>compose\<close> is the matrix product and
  the matching translation and scale, \<open>invert\<close> the inverse matrix (of a singular matrix:
  the zero matrix, as \<open>x / 0 = 0\<close> in HOL), \<open>update\<close> rebuilds the matrix from translation and
  scale. The setters accept three scalars, a Vector3 or an array of three numbers and leave
  the vector as it is on any other shape.
\<close>

type_synonym Mat = "rat list list"

definition matMul :: "Mat \<Rightarrow> Mat \<Rightarrow> Mat" where
  "matMul A B = map (\<lambda>row. map (\<lambda>col. sum_list (map2 (*) row col)) (transpose B)) A"

function det :: "Mat \<Rightarrow> rat" where
  "det [] = 1"
| "det (r # rs) =
     sum_list (map (\<lambda>j. (- 1) ^ j * (r ! j) * det (map (splice1 j) rs)) [0..<length r])"
  by pat_completeness auto
termination by (relation "measure length") auto

definition matInv :: "Mat \<Rightarrow> Mat" where
  "matInv A = (let d = det A; n = length A in
     map (\<lambda>i. map (\<lambda>j. (- 1) ^ (i + j) * det (map (splice1 i) (splice1 j A)) / d) [0..<n])
       [0..<n])"

definition identity4 :: Mat where
  "identity4 = [[1, 0, 0, 0], [0, 1, 0, 0], [0, 0, 1, 0], [0, 0, 0, 1]]"

definition trsMatrix :: "rat Vector3 \<Rightarrow> rat Vector3 \<Rightarrow> Mat" where
  "trsMatrix t s =
     [[vx s, 0, 0, vx t], [0, vy s, 0, vy t], [0, 0, vz s, vz t], [0, 0, 0, 1]]"

definition vec2 :: "(rat \<Rightarrow> rat \<Rightarrow> rat) \<Rightarrow> rat Vector3 \<Rightarrow> rat Vector3 \<Rightarrow> rat Vector3" where
  "vec2 f a b = Vector3 (f (vx a) (vx b)) (f (vy a) (vy b)) (f (vz a) (vz b))"

fun scalars3 :: "rat jsval list \<Rightarrow> rat Vector3 option" where
  "scalars3 [Num a, Num b, Num c] = Some (Vector3 a b c)"
| "scalars3 _ = None"

fun shape :: "rat jsval list \<Rightarrow> rat Vector3 option" where
  "shape [Vec v] = Some v"
| "shape [Arr xs] = scalars3 xs"
| "shape xs = scalars3 xs"

fun unwrap :: "rat jsval list \<Rightarrow> rat jsval list" where
  "unwrap [Arr xs] = xs"
| "unwrap xs = xs"

definition ratMath :: "(rat, unit, Mat) Math" where
  "ratMath = \<lparr>
     Transform_new = \<lparr>translation = Vector3 0 0 0, rotation = (), scale = Vector3 1 1 1,
       matrix = identity4, normalMatrix = identity4\<rparr>,
     Transform_multiply = (\<lambda>a b. \<lparr>
       translation = vec2 (+) (translation a) (vec2 (*) (scale a) (translation b)),
       rotation = (), scale = vec2 (*) (scale a) (scale b),
       matrix = matMul (matrix a) (matrix b), normalMatrix = normalMatrix b\<rparr>),
     Transform_invert = (\<lambda>a. \<lparr>
       translation = vec2 (\<lambda>t s. - t / s) (translation a) (scale a),
       rotation = (), scale = vec2 (\<lambda>_ s. 1 / s) (scale a) (scale a),
       matrix = matInv (matrix a), normalMatrix = identity4\<rparr>),
     Transform_update = (\<lambda>a. a\<lparr>matrix := trsMatrix (translation a) (scale a)\<rparr>),
     Transform_lookAt = (\<lambda>a _ _. a),
     Matrix4x4_invert = matInv,
     Matrix4x4_transpose = transpose,
     Matrix3x3_fromAngles = (\<lambda>_ _ _ _. ()),
     Matrix3x3_toAngles = (\<lambda>_. Vector3 0 0 0),
     Vector3_new = (\<lambda>args. case shape args of Some w \<Rightarrow> w | None \<Rightarrow> Vector3 0 0 0),
     Vector3_set = (\<lambda>v args. case shape (unwrap args) of Some w \<Rightarrow> w | None \<Rightarrow> v),
     Vector3_add = (\<lambda>v x. case shape [x] of Some w \<Rightarrow> vec2 (+) v w | None \<Rightarrow> v)\<rparr>"

subsection \<open>Concrete scenes\<close>

text \<open>
  Three components \<open>0\<close>, \<open>2\<close>, \<open>3\<close>: \<open>2\<close> is moved to (0, 5, 0), \<open>3\<close> to (5, 0, 0) and
  attached to \<open>2\<close>; after a propagation pass \<open>3\<close> is re-parented under \<open>0\<close> with
  \<open>keepTransform\<close>, and a second pass follows.
\<close>

definition fixtureStart :: "(rat, unit, Mat) Scene" where
  "fixtureStart = setTranslation ratMath
             (setTranslation ratMath (freshScene ratMath) 2 [Num 0, Num 5, Num 0])
             3 [Num 5, Num 0, Num 0]"

definition reparentBefore :: "(rat, unit, Mat) Scene option" where
  "reparentBefore =
     map_option (\<lambda>s. propagationPass ratMath s [0, 2, 3])
       (attachChild ratMath fixtureStart 2 3 False)"

definition reparentAfter :: "(rat, unit, Mat) Scene option" where
  "reparentAfter =
     Option.bind reparentBefore (\<lambda>s.
       map_option (\<lambda>s'. propagationPass ratMath s' [0, 2, 3])
         (attachChild ratMath s 0 3 True))"

text \<open>An unscaled transform at \<open>t\<close> with its matrix rebuilt and normal matrix \<open>n\<close>.\<close>

definition plainTransform :: "rat Vector3 \<Rightarrow> Mat \<Rightarrow> (rat, unit, Mat) Transform" where
  "plainTransform t n = \<lparr>translation = t, rotation = (), scale = Vector3 1 1 1,
     matrix = trsMatrix t (Vector3 1 1 1), normalMatrix = n\<rparr>"

text \<open>A component scaled by (2, 1, 1), its local matrix rebuilt.\<close>

definition scaledScene :: "(rat, unit, Mat) Scene" where
  "scaledScene = updateTransform ratMath
     (setScale ratMath (freshScene ratMath) 3 [Num 2, Num 1, Num 1]) 3"

text \<open>The chain \<open>0\<close>, \<open>2\<close>, \<open>3\<close>: \<open>2\<close> is a child of \<open>0\<close> and \<open>3\<close> a child of \<open>2\<close>; then
  \<open>3\<close> is attached to its grandparent \<open>0\<close>.\<close>

definition chainScene :: "(rat, unit, Mat) Scene option" where
  "chainScene = run ratMath [Attach 0 2 False, Attach 2 3 False] (freshScene ratMath)"

definition chainMoved :: "(rat, unit, Mat) Scene option" where
  "chainMoved = Option.bind chainScene (\<lambda>s. attachChild ratMath s 0 3 False)"

text \<open>
  \<open>detachChild(3, keepTransform = true)\<close> called on \<open>0\<close>, which is not the parent of \<open>3\<close>,
  followed by a propagation pass.
\<close>

definition strayDetach :: "(rat, unit, Mat) Scene option" where
  "strayDetach =
     map_option (\<lambda>s. propagationPass ratMath (detachChild ratMath s 0 3 True) [0, 2, 3])
       reparentBefore"



text \<open>\<open>attachChild(3, keepTransform = true)\<close> on a freshly constructed \<open>0\<close>.\<close>

definition freshAttachKeep :: "(rat, unit, Mat) Scene option" where
  "freshAttachKeep = attachChild ratMath (freshScene ratMath) 0 3 True"

text \<open>What is read off a scene that a call returned.\<close>

definition parentIn :: "('a, 'r, 'm) Scene option \<Rightarrow> nat \<Rightarrow> nat option option" where
  "parentIn r n = map_option (\<lambda>s. parentOf s n) r"

definition childrenIn :: "('a, 'r, 'm) Scene option \<Rightarrow> nat \<Rightarrow> nat list option" where
  "childrenIn r n = map_option (\<lambda>s. childrenOf s n) r"

definition flagsIn :: "('a, 'r, 'm) Scene option \<Rightarrow> nat \<Rightarrow> (bool \<times> bool) option" where
  "flagsIn r n = map_option (\<lambda>s. (dirty (components s n), updated (components s n))) r"

definition localTranslationIn ::
  "('a, 'r, 'm) Scene option \<Rightarrow> nat \<Rightarrow> 'a Vector3 option" where
  "localTranslationIn r n = map_option (\<lambda>s. translation (transform (components s n))) r"

definition worldTranslationIn ::
  "('a, 'r, 'm) Scene option \<Rightarrow> nat \<Rightarrow> 'a Vector3 option" where
  "worldTranslationIn r n =
     map_option (\<lambda>s. translation (worldTransform (components s n))) r"


section \<open>Properties\<close>

subsection \<open>Reading the store after a write\<close>

lemma components_modify [simp]:
  "components (modify n f s) = (components s)(n := f (components s n))"
  by (simp add: modify_def)

lemma console_modify [simp]: "console (modify n f s) = console s"
  by (simp add: modify_def)

lemma components_warn [simp]: "components (warn msg s) = components s"
  by (simp add: warn_def)

lemma console_warn [simp]: "console (warn msg s) = console s @ [msg]"
  by (simp add: warn_def)

lemma parentOf_warn [simp]: "parentOf (warn msg s) = parentOf s"
  by (simp add: parentOf_def fun_eq_iff)

lemma childrenOf_warn [simp]: "childrenOf (warn msg s) = childrenOf s"
  by (simp add: childrenOf_def fun_eq_iff)

lemma parentOf_modify:
  "parentOf (modify n f s) = (parentOf s)(n := parent (f (components s n)))"
  by (simp add: parentOf_def fun_eq_iff)

lemma childrenOf_modify:
  "childrenOf (modify n f s) = (childrenOf s)(n := children (f (components s n)))"
  by (simp add: childrenOf_def fun_eq_iff)

subsection \<open>\<open>indexOf\<close> and \<open>splice\<close>\<close>

lemma indexOf_None_iff: "indexOf xs y = None \<longleftrightarrow> y \<notin> set xs"
  by (induction xs) auto

lemma splice1_indexOf: "indexOf xs y = Some i \<Longrightarrow> splice1 i xs = remove1 y xs"
proof (induction xs arbitrary: i)
  case Nil
  then show ?case by simp
next
  case (Cons x xs)
  show ?case
  proof (cases "x = y")
    case True
    with Cons.prems show ?thesis by (simp add: splice1_def)
  next
    case False
    with Cons.prems obtain j where j: "indexOf xs y = Some j" "i = Suc j"
      by auto
    from Cons.IH [OF j(1)] False j(2) show ?thesis
      by (simp add: splice1_def)
  qed
qed

subsection \<open>The structural effect of the two operations\<close>

lemma updateTransform_shape [simp]:
  "parent (components (updateTransform M s n) x) = parent (components s x)"
  "children (components (updateTransform M s n) x) = children (components s x)"
  by (simp_all add: updateTransform_def)

lemma updateWorldTransform_shape [simp]:
  "parent (components (updateWorldTransform M s n) x) = parent (components s x)"
  "children (components (updateWorldTransform M s n) x) = children (components s x)"
  by (simp_all add: updateWorldTransform_def)

lemma keepWorld_shape [simp]:
  "parentOf (keepWorld M s p c) = parentOf s"
  "childrenOf (keepWorld M s p c) = childrenOf s"
  by (simp_all add: keepWorld_def Let_def parentOf_def childrenOf_def fun_eq_iff)

lemma indexOf_Some_mem: "indexOf xs y = Some i \<Longrightarrow> y \<in> set xs"
  using indexOf_None_iff [of xs y] by auto

lemma detachChild_parentOf:
  "c \<noteq> p \<Longrightarrow> parentOf (detachChild M s p c k) =
     (if c \<in> set (childrenOf s p) then (parentOf s)(c := None) else parentOf s)"
  by (auto simp: detachChild_def Let_def parentOf_def childrenOf_def fun_eq_iff
      indexOf_None_iff split: option.splits dest: indexOf_Some_mem)

lemma detachChild_childrenOf:
  "c \<noteq> p \<Longrightarrow> childrenOf (detachChild M s p c k) =
     (childrenOf s)(p := remove1 c (childrenOf s p))"
  by (auto simp: detachChild_def Let_def childrenOf_def fun_eq_iff
      indexOf_None_iff splice1_indexOf remove1_idem split: option.splits)

subsection \<open>The parent chain and the loop of \<open>attachChild\<close>\<close>


lemma ancestorLoop_None [simp]: "ancestorLoop s None c = Some False"
  by (subst ancestorLoop.simps) simp

lemma ancestorLoop_Some [simp]:
  "ancestorLoop s (Some n) c =
     (if n = c then Some True else ancestorLoop s (parentOf s n) c)"
  by (subst ancestorLoop.simps) (simp add: parentOf_def)

lemma ancestorOrSelf_unfold:
  "ancestorOrSelf P n a \<longleftrightarrow> n = a \<or> (\<exists>p. P n = Some p \<and> ancestorOrSelf P p a)"
  by (auto elim: ancestorOrSelf.cases intro: ancestorOrSelf.intros)

lemma ancestorLoop_found:
  "ancestorOrSelf (parentOf s) n c \<Longrightarrow> ancestorLoop s (Some n) c = Some True"
  by (induction rule: ancestorOrSelf.induct) auto

lemma ancestorLoop_rooted:
  "rooted (parentOf s) n \<Longrightarrow> ancestorLoop s (Some n) c = Some (ancestorOrSelf (parentOf s) n c)"
proof (induction rule: rooted.induct)
  case (root n)
  then show ?case
    using ancestorOrSelf_unfold [of "parentOf s" n c] by auto
next
  case (up n p)
  then show ?case
    using ancestorOrSelf_unfold [of "parentOf s" n c] by auto
qed

lemma rooted_not_self: "rooted P n \<Longrightarrow> P n \<noteq> Some n"
  by (induction rule: rooted.induct) auto

lemma rooted_cut: "rooted P n \<Longrightarrow> rooted (P(c := None)) n"
proof (induction rule: rooted.induct)
  case (root n)
  then show ?case by (simp add: rooted.root)
next
  case (up n p)
  show ?case
  proof (cases "n = c")
    case True
    then show ?thesis by (simp add: rooted.root)
  next
    case False
    with up show ?thesis by (auto intro: rooted.up)
  qed
qed

lemma ancestorOrSelf_cut:
  "ancestorOrSelf (P(c := None)) n a \<Longrightarrow> ancestorOrSelf P n a"
proof (induction rule: ancestorOrSelf.induct)
  case (self n)
  show ?case by (rule ancestorOrSelf.self)
next
  case (step n p a)
  then have "P n = Some p" by (auto split: if_splits)
  with step show ?case by (auto intro: ancestorOrSelf.step)
qed

lemma rooted_link_above:
  "rooted P n \<Longrightarrow> \<not> ancestorOrSelf P n c \<Longrightarrow> rooted (P(c := Some p)) n"
proof (induction rule: rooted.induct)
  case (root n)
  then have "n \<noteq> c" by (auto intro: ancestorOrSelf.self)
  with root show ?case by (simp add: rooted.root)
next
  case (up n q)
  then have nc: "n \<noteq> c" by (auto intro: ancestorOrSelf.self)
  from up have "\<not> ancestorOrSelf P q c" by (auto intro: ancestorOrSelf.step)
  with up.IH have "rooted (P(c := Some p)) q" by blast
  moreover from nc up.hyps have "(P(c := Some p)) n = Some q" by simp
  ultimately show ?case by (rule rooted.up [rotated])
qed

lemma rooted_link:
  assumes all: "\<forall>n. rooted P n" and na: "\<not> ancestorOrSelf P p c"
  shows "rooted (P(c := Some p)) n"
proof -
  have rp: "rooted (P(c := Some p)) p"
    using rooted_link_above all na by blast
  have rc: "rooted (P(c := Some p)) c"
    by (rule rooted.up [where p = p]) (simp_all add: rp)
  from all have "rooted P n" by blast
  then show ?thesis
  proof (induction rule: rooted.induct)
    case (root n)
    show ?case
    proof (cases "n = c")
      case True
      with rc show ?thesis by blast
    next
      case False
      with root have "(P(c := Some p)) n = None" by simp
      then show ?thesis by (rule rooted.root)
    qed
  next
    case (up n q)
    show ?case
    proof (cases "n = c")
      case True
      with rc show ?thesis by blast
    next
      case False
      with up.hyps have "(P(c := Some p)) n = Some q" by simp
      then show ?thesis using up.IH by (rule rooted.up)
    qed
  qed
qed

lemma count_list_remove1_other:
  "x \<noteq> y \<Longrightarrow> count_list (remove1 y xs) x = count_list xs x"
  by (induction xs) auto

lemma count_list_remove1_same:
  "count_list xs y = 1 \<Longrightarrow> y \<notin> set (remove1 y xs)"
proof (induction xs)
  case Nil
  then show ?case by simp
next
  case (Cons x xs)
  then show ?case by (auto simp: count_list_0_iff split: if_splits)
qed

lemma treeInvI:
  assumes "\<And>n p. parentOf s n = Some p \<Longrightarrow> count_list (childrenOf s p) n = 1"
    and "\<And>n q. n \<in> set (childrenOf s q) \<Longrightarrow> parentOf s n = Some q"
    and "\<And>n. rooted (parentOf s) n"
  shows "treeInv s"
  using assms unfolding treeInv_def by blast

lemma treeInv_count:
  "treeInv s \<Longrightarrow> parentOf s n = Some p \<Longrightarrow> count_list (childrenOf s p) n = 1"
  unfolding treeInv_def by blast

lemma treeInv_parent:
  "treeInv s \<Longrightarrow> n \<in> set (childrenOf s q) \<Longrightarrow> parentOf s n = Some q"
  unfolding treeInv_def by blast

lemma treeInv_rooted: "treeInv s \<Longrightarrow> rooted (parentOf s) n"
  unfolding treeInv_def by blast

lemma treeInv_cong:
  "parentOf s' = parentOf s \<Longrightarrow> childrenOf s' = childrenOf s \<Longrightarrow> treeInv s \<Longrightarrow> treeInv s'"
  unfolding treeInv_def by metis

lemma treeInv_detachChild:
  assumes inv: "treeInv s"
  shows "treeInv (detachChild M s p c k)"
proof (cases "c = p")
  case True
  then have "detachChild M s p c k = warn ''attachChild: An object can't be removed from itself.'' s"
    by (simp add: detachChild_def)
  with inv show ?thesis by (simp add: treeInv_cong)
next
  case False
  note P = detachChild_parentOf [OF False, of M s k]
  note C = detachChild_childrenOf [OF False, of M s k]
  show ?thesis
  proof (cases "c \<in> set (childrenOf s p)")
    case False
    then have "parentOf (detachChild M s p c k) = parentOf s"
      and "childrenOf (detachChild M s p c k) = childrenOf s"
      by (simp_all add: P C remove1_idem)
    with inv show ?thesis by (rule treeInv_cong [rotated 2])
  next
    case True
    from inv True have pc: "parentOf s c = Some p" by (rule treeInv_parent)
    with inv have cnt: "count_list (childrenOf s p) c = 1" by (rule treeInv_count)
    show ?thesis
    proof (rule treeInvI)
      fix n q
      assume "parentOf (detachChild M s p c k) n = Some q"
      with True have nc: "n \<noteq> c" and pn: "parentOf s n = Some q"
        by (auto simp: P split: if_splits)
      from inv pn have "count_list (childrenOf s q) n = 1" by (rule treeInv_count)
      with nc show "count_list (childrenOf (detachChild M s p c k) q) n = 1"
        by (auto simp: C count_list_remove1_other)
    next
      fix n q
      assume mem: "n \<in> set (childrenOf (detachChild M s p c k) q)"
      show "parentOf (detachChild M s p c k) n = Some q"
      proof (cases "q = p")
        case qp: True
        with mem have mem': "n \<in> set (remove1 c (childrenOf s p))" by (simp add: C)
        with cnt have nc: "n \<noteq> c" using count_list_remove1_same by metis
        from mem' have "n \<in> set (childrenOf s p)" by (metis notin_set_remove1)
        with inv have "parentOf s n = Some p" by (rule treeInv_parent)
        with nc qp True show ?thesis by (simp add: P)
      next
        case qp: False
        with mem have "n \<in> set (childrenOf s q)" by (simp add: C)
        with inv have pn: "parentOf s n = Some q" by (rule treeInv_parent)
        with pc qp have "n \<noteq> c" by auto
        with pn True show ?thesis by (simp add: P)
      qed
    next
      fix n
      from inv have "rooted (parentOf s) n" by (rule treeInv_rooted)
      then have "rooted ((parentOf s)(c := None)) n" by (rule rooted_cut)
      with True show "rooted (parentOf (detachChild M s p c k)) n" by (simp add: P)
    qed
  qed
qed

lemma attachChild_rejected:
  "ancestorOrSelf (parentOf s) p c \<Longrightarrow>
   attachChild M s p c k =
     Some (warn ''attachChild: An object can't be added as a descendant of itself.'' s)"
  by (simp only: attachChild_def ancestorLoop_found option.case bool.case if_True)

lemma attachChild_accepted:
  assumes "rooted (parentOf s) p" and "\<not> ancestorOrSelf (parentOf s) p c"
  shows "attachChild M s p c k =
     Some (modify p (\<lambda>n. n\<lparr>children := children n @ [c]\<rparr>)
            (modify c (\<lambda>n. n\<lparr>parent := Some p\<rparr>)
               (if k then keepWorld M (unlinked M s c) p c else unlinked M s c)))"
proof -
  from assms have "ancestorLoop s (Some p) c = Some False"
    by (simp only: ancestorLoop_rooted)
  then show ?thesis
    by (simp only: attachChild_def unlinked_def parentOf_def option.case bool.case Let_def)
qed

lemma treeInv_unlinked: "treeInv s \<Longrightarrow> treeInv (unlinked M s c)"
  by (simp add: unlinked_def treeInv_detachChild split: option.splits)

lemma unlinked_parentOf:
  assumes "treeInv s"
  shows "parentOf (unlinked M s c) = (parentOf s)(c := None)"
proof (cases "parentOf s c")
  case None
  then show ?thesis by (auto simp: unlinked_def fun_eq_iff)
next
  case (Some q)
  from assms have "rooted (parentOf s) c" by (rule treeInv_rooted)
  with Some have cq: "c \<noteq> q" using rooted_not_self by metis
  from assms Some have "count_list (childrenOf s q) c = 1" by (rule treeInv_count)
  then have "c \<in> set (childrenOf s q)" by (metis count_list_0_iff zero_neq_one)
  with Some cq show ?thesis by (simp add: unlinked_def detachChild_parentOf)
qed

lemma unlinked_childrenOf:
  assumes "treeInv s"
  shows "childrenOf (unlinked M s c) q = removeAll c (childrenOf s q)"
proof -
  have dist: "count_list xs c \<le> 1 \<Longrightarrow> remove1 c xs = removeAll c xs" for xs :: "nat list"
    by (induction xs) (auto simp: count_list_0_iff)
  show ?thesis
  proof (cases "parentOf s c")
    case None
    have "c \<notin> set (childrenOf s q)"
    proof
      assume "c \<in> set (childrenOf s q)"
      with assms have "parentOf s c = Some q" by (rule treeInv_parent)
      with None show False by simp
    qed
    with None show ?thesis by (simp add: unlinked_def)
  next
    case (Some r)
    from assms have "rooted (parentOf s) c" by (rule treeInv_rooted)
    with Some have cr: "c \<noteq> r" using rooted_not_self by metis
    from assms Some have cnt: "count_list (childrenOf s r) c = 1" by (rule treeInv_count)
    show ?thesis
    proof (cases "q = r")
      case True
      with Some cr cnt show ?thesis
        by (simp add: unlinked_def detachChild_childrenOf dist)
    next
      case False
      have "c \<notin> set (childrenOf s q)"
      proof
        assume "c \<in> set (childrenOf s q)"
        with assms have "parentOf s c = Some q" by (rule treeInv_parent)
        with Some False show False by simp
      qed
      with Some cr False show ?thesis
        by (simp add: unlinked_def detachChild_childrenOf)
    qed
  qed
qed


lemma count_list_removeAll_other:
  "x \<noteq> y \<Longrightarrow> count_list (removeAll y xs) x = count_list xs x"
  by (induction xs) auto

lemma count_list_removeAll_same: "count_list (removeAll y xs) y = 0"
  by (simp add: count_list_0_iff)

lemma attachChild_accepted_shape:
  assumes inv: "treeInv s" and na: "\<not> ancestorOrSelf (parentOf s) p c"
  shows "\<exists>s'. attachChild M s p c k = Some s'
     \<and> parentOf s' = (parentOf s)(c := Some p)
     \<and> (\<forall>q. childrenOf s' q =
           (if q = p then removeAll c (childrenOf s p) @ [c]
            else removeAll c (childrenOf s q)))"
proof -
  define u where "u = (if k then keepWorld M (unlinked M s c) p c else unlinked M s c)"
  define s' where "s' = modify p (\<lambda>n. n\<lparr>children := children n @ [c]\<rparr>)
    (modify c (\<lambda>n. n\<lparr>parent := Some p\<rparr>) u)"
  from na have cp: "c \<noteq> p" by (auto intro: ancestorOrSelf.self)
  from inv have "rooted (parentOf s) p" by (rule treeInv_rooted)
  then have att: "attachChild M s p c k = Some s'"
    using na unfolding s'_def u_def by (rule attachChild_accepted)
  have uP: "parentOf u = (parentOf s)(c := None)"
    by (simp add: u_def unlinked_parentOf [OF inv])
  have uC: "childrenOf u q = removeAll c (childrenOf s q)" for q
    by (simp add: u_def unlinked_childrenOf [OF inv])
  have "parentOf s' x = ((parentOf s)(c := Some p)) x" for x
    using cp fun_cong [OF uP, of x] by (auto simp: s'_def parentOf_def)
  then have P: "parentOf s' = (parentOf s)(c := Some p)" by (rule ext)
  have C: "childrenOf s' q =
      (if q = p then removeAll c (childrenOf s p) @ [c] else removeAll c (childrenOf s q))" for q
    using cp uC [of q] by (auto simp: s'_def childrenOf_def)
  from att P C show ?thesis by blast
qed

lemma treeInv_link:
  assumes inv: "treeInv s" and na: "\<not> ancestorOrSelf (parentOf s) p c"
    and P: "parentOf s' = (parentOf s)(c := Some p)"
    and C: "\<And>q. childrenOf s' q =
           (if q = p then removeAll c (childrenOf s p) @ [c]
            else removeAll c (childrenOf s q))"
  shows "treeInv s'"
proof (rule treeInvI)
  fix n q
  assume pn: "parentOf s' n = Some q"
  show "count_list (childrenOf s' q) n = 1"
  proof (cases "n = c")
    case True
    with pn have "q = p" by (simp add: P)
    with True show ?thesis by (simp add: C count_list_removeAll_same)
  next
    case False
    with pn have "parentOf s n = Some q" by (simp add: P)
    with inv have "count_list (childrenOf s q) n = 1" by (rule treeInv_count)
    with False show ?thesis by (auto simp: C count_list_removeAll_other)
  qed
next
  fix n q
  assume mem: "n \<in> set (childrenOf s' q)"
  show "parentOf s' n = Some q"
  proof (cases "n = c")
    case True
    with mem have "q = p" by (auto simp: C split: if_splits)
    with True show ?thesis by (simp add: P)
  next
    case False
    with mem have "n \<in> set (childrenOf s q)" by (auto simp: C split: if_splits)
    with inv have "parentOf s n = Some q" by (rule treeInv_parent)
    with False show ?thesis by (simp add: P)
  qed
next
  fix n
  from inv have "\<forall>n. rooted (parentOf s) n" by (simp add: treeInv_rooted)
  then have "rooted ((parentOf s)(c := Some p)) n" using na by (rule rooted_link)
  then show "rooted (parentOf s') n" by (simp add: P)
qed

lemma treeInv_attachChild:
  assumes inv: "treeInv s"
  shows "\<exists>s'. attachChild M s p c k = Some s' \<and> treeInv s'"
proof (cases "ancestorOrSelf (parentOf s) p c")
  case True
  from inv have "treeInv (warn ''attachChild: An object can't be added as a descendant of itself.'' s)"
    by (simp add: treeInv_cong)
  with True show ?thesis by (simp add: attachChild_rejected)
next
  case False
  from attachChild_accepted_shape [OF inv False, of M k] obtain s' where
    s': "attachChild M s p c k = Some s'" "parentOf s' = (parentOf s)(c := Some p)"
      "\<And>q. childrenOf s' q =
           (if q = p then removeAll c (childrenOf s p) @ [c]
            else removeAll c (childrenOf s q))"
    by blast
  from inv False s'(2,3) have "treeInv s'" by (rule treeInv_link)
  with s'(1) show ?thesis by blast
qed

lemma treeInv_run: "treeInv s \<Longrightarrow> \<exists>s'. run M cs s = Some s' \<and> treeInv s'"
proof (induction cs arbitrary: s)
  case Nil
  then show ?case by simp
next
  case (Cons x cs)
  show ?case
  proof (cases x)
    case (Attach p c k)
    from treeInv_attachChild [OF Cons.prems, of M p c k] obtain s1 where
      s1: "attachChild M s p c k = Some s1" "treeInv s1" by blast
    from Cons.IH [OF s1(2)] s1(1) Attach show ?thesis by simp
  next
    case (Detach p c k)
    from Cons.prems have "treeInv (detachChild M s p c k)" by (rule treeInv_detachChild)
    from Cons.IH [OF this] Detach show ?thesis by simp
  qed
qed

lemma treeInv_freshScene: "treeInv (freshScene M)"
proof (rule treeInvI)
  fix n
  have "parentOf (freshScene M) n = None"
    by (simp add: parentOf_def freshScene_def newTransformComponent_def)
  then show "rooted (parentOf (freshScene M)) n" by (rule rooted.root)
qed (simp_all add: parentOf_def childrenOf_def freshScene_def newTransformComponent_def)

lemma treeInv_cases:
  assumes inv: "treeInv s"
  shows "(detached s n \<and> (\<forall>p. \<not> attachedTo s n p))
       \<or> (\<not> detached s n \<and> (\<exists>!p. attachedTo s n p))"
proof (cases "parentOf s n")
  case None
  have "n \<notin> set (childrenOf s q)" for q
  proof
    assume "n \<in> set (childrenOf s q)"
    with inv have "parentOf s n = Some q" by (rule treeInv_parent)
    with None show False by simp
  qed
  with None show ?thesis by (simp add: detached_def attachedTo_def)
next
  case (Some p)
  with inv have cnt: "count_list (childrenOf s p) n = 1" by (rule treeInv_count)
  have "n \<notin> set (childrenOf s q)" if "q \<noteq> p" for q
  proof
    assume "n \<in> set (childrenOf s q)"
    with inv have "parentOf s n = Some q" by (rule treeInv_parent)
    with Some that show False by simp
  qed
  with Some cnt have "attachedTo s n p" by (simp add: attachedTo_def)
  moreover have "q = p" if "attachedTo s n q" for q
    using that Some by (simp add: attachedTo_def)
  ultimately have "\<exists>!p. attachedTo s n p" by blast
  with Some show ?thesis by (simp add: detached_def)
qed

text \<open>
  Claim C2. After any finite sequence of \<open>attachChild\<close> and \<open>detachChild\<close> calls on freshly
  constructed components, every call has returned and every node \<open>n\<close> is in exactly one of
  two states: it has no parent and is in no child list, or it has one parent \<open>p\<close>, occurs
  exactly once in the child list of \<open>p\<close> and in no other child list. From such a store an
  accepted \<open>attachChild\<close> puts the child at the end of the new parent's list and keeps the
  order of all other entries; \<open>detachChild\<close> removes the child and keeps the order of the
  rest.
\<close>

theorem tree_consistent_after_calls:
  "\<exists>s. run M cs (freshScene M) = Some s
     \<and> (\<forall>n. (detached s n \<and> (\<forall>p. \<not> attachedTo s n p))
            \<or> (\<not> detached s n \<and> (\<exists>!p. attachedTo s n p)))
     \<and> (\<forall>p c k. \<not> ancestorOrSelf (parentOf s) p c \<longrightarrow>
           (\<exists>s'. attachChild M s p c k = Some s' \<and> attachedTo s' c p
              \<and> childrenOf s' p = removeAll c (childrenOf s p) @ [c]
              \<and> (\<forall>q. q \<noteq> p \<longrightarrow> childrenOf s' q = removeAll c (childrenOf s q))))
     \<and> (\<forall>p c k q. c \<noteq> p \<longrightarrow>
           childrenOf (detachChild M s p c k) q =
             (if q = p then remove1 c (childrenOf s p) else childrenOf s q))"
proof -
  from treeInv_run [OF treeInv_freshScene, of M cs] obtain s where
    s: "run M cs (freshScene M) = Some s" "treeInv s" by blast
  have 1: "(detached s n \<and> (\<forall>p. \<not> attachedTo s n p))
       \<or> (\<not> detached s n \<and> (\<exists>!p. attachedTo s n p))" for n
    using s(2) by (rule treeInv_cases)
  have 2: "\<exists>s'. attachChild M s p c k = Some s' \<and> attachedTo s' c p
              \<and> childrenOf s' p = removeAll c (childrenOf s p) @ [c]
              \<and> (\<forall>q. q \<noteq> p \<longrightarrow> childrenOf s' q = removeAll c (childrenOf s q))"
    if na: "\<not> ancestorOrSelf (parentOf s) p c" for p c k
  proof -
    from attachChild_accepted_shape [OF s(2) na, of M k] obtain s' where
      s': "attachChild M s p c k = Some s'" "parentOf s' = (parentOf s)(c := Some p)"
        "\<And>q. childrenOf s' q =
           (if q = p then removeAll c (childrenOf s p) @ [c]
            else removeAll c (childrenOf s q))"
      by blast
    from s(2) na s'(2,3) have "treeInv s'" by (rule treeInv_link)
    moreover have "parentOf s' c = Some p" by (simp add: s'(2))
    ultimately have "attachedTo s' c p"
      using treeInv_cases [of s' c] by (auto simp: detached_def attachedTo_def)
    with s'(1,3) show ?thesis by auto
  qed
  have 3: "childrenOf (detachChild M s p c k) q =
             (if q = p then remove1 c (childrenOf s p) else childrenOf s q)"
    if "c \<noteq> p" for p c k q
    using that by (simp add: detachChild_childrenOf)
  from s(1) 1 2 3 show ?thesis by blast
qed

subsection \<open>What \<open>keepTransform\<close> writes\<close>

text \<open>
  A \<open>detachChild\<close> of a node that is not in the child list changes nothing without
  \<open>keepTransform\<close>; with it, the local transform of the node is still overwritten. An accepted
  \<open>attachChild\<close> with \<open>keepTransform\<close> composes the inverse of the receiver's recomputed world
  transform with the child's updated local transform.
\<close>

lemma detachChild_non_member_plain:
  "c \<noteq> p \<Longrightarrow> c \<notin> set (children (components s p)) \<Longrightarrow> detachChild M s p c False = s"
  using indexOf_None_iff [of "children (components s p)" c] by (simp add: detachChild_def)

lemma detachChild_non_member_keep:
  "c \<noteq> p \<Longrightarrow> c \<notin> set (children (components s p)) \<Longrightarrow>
   detachChild M s p c True = modify c (\<lambda>n. n\<lparr>transform := worldTransform n\<rparr>) s"
  using indexOf_None_iff [of "children (components s p)" c] by (simp add: detachChild_def)

lemma unlinked_transform:
  "transform (components (unlinked M s c) x) = transform (components s x)"
  "worldTransform (components (unlinked M s c) x) = worldTransform (components s x)"
  by (auto simp: unlinked_def detachChild_def Let_def split: option.splits)

lemma attachChild_keepTransform_local:
  assumes "rooted (parentOf s) p" and "\<not> ancestorOrSelf (parentOf s) p c"
  shows "\<exists>s'. attachChild M s p c True = Some s'
     \<and> transform (components s' c) =
         Transform_multiply M
           (Transform_invert M (worldTransform (components
              (updateWorldTransform M
                 (updateTransform M (updateTransform M (unlinked M s c) c) p) p) p)))
           (Transform_update M (transform (components s c)))"
proof -
  from assms(2) have cp: "c \<noteq> p" by (auto intro: ancestorOrSelf.self)
  have "transform (components (keepWorld M (unlinked M s c) p c) c) =
         Transform_multiply M
           (Transform_invert M (worldTransform (components
              (updateWorldTransform M
                 (updateTransform M (updateTransform M (unlinked M s c) c) p) p) p)))
           (Transform_update M (transform (components s c)))"
    using cp
    by (simp add: keepWorld_def Let_def unlinked_transform)
       (simp add: updateTransform_def updateWorldTransform_def unlinked_transform)
  with cp show ?thesis
    by (simp add: attachChild_accepted [OF assms])
qed

subsection \<open>Evaluation on the concrete scenes\<close>

lemma Math_ratMath [simp]:
  "Transform_new ratMath = \<lparr>translation = Vector3 0 0 0, rotation = (), scale = Vector3 1 1 1,
       matrix = identity4, normalMatrix = identity4\<rparr>"
  "Transform_multiply ratMath a b = \<lparr>
       translation = vec2 (+) (translation a) (vec2 (*) (scale a) (translation b)),
       rotation = (), scale = vec2 (*) (scale a) (scale b),
       matrix = matMul (matrix a) (matrix b), normalMatrix = normalMatrix b\<rparr>"
  "Transform_invert ratMath a = \<lparr>
       translation = vec2 (\<lambda>t s. - t / s) (translation a) (scale a),
       rotation = (), scale = vec2 (\<lambda>_ s. 1 / s) (scale a) (scale a),
       matrix = matInv (matrix a), normalMatrix = identity4\<rparr>"
  "Transform_update ratMath a = a\<lparr>matrix := trsMatrix (translation a) (scale a)\<rparr>"
  "Matrix4x4_invert ratMath = matInv"
  "Matrix4x4_transpose ratMath = transpose"
  "Vector3_set ratMath v args = (case shape (unwrap args) of Some w \<Rightarrow> w | None \<Rightarrow> v)"
  by (simp_all add: ratMath_def)

lemma fixtureStart_components:
  "components fixtureStart 0 = newTransformComponent ratMath"
  "components fixtureStart 2 = (newTransformComponent ratMath)
     \<lparr>transform := (Transform_new ratMath)\<lparr>translation := Vector3 0 5 0\<rparr>\<rparr>"
  "components fixtureStart 3 = (newTransformComponent ratMath)
     \<lparr>transform := (Transform_new ratMath)\<lparr>translation := Vector3 5 0 0\<rparr>\<rparr>"
  by (simp_all add: fixtureStart_def setTranslation_def freshScene_def newTransformComponent_def)

lemma fixtureStart_parentOf: "parentOf fixtureStart 2 = None" "parentOf fixtureStart 3 = None"
  by (simp_all add: parentOf_def fixtureStart_components newTransformComponent_def)

lemma fixtureLinked:
  "\<exists>s. attachChild ratMath fixtureStart 2 3 False = Some s
     \<and> components s 0 = components fixtureStart 0
     \<and> components s 2 = (components fixtureStart 2)\<lparr>children := [3]\<rparr>
     \<and> components s 3 = (components fixtureStart 3)\<lparr>parent := Some 2\<rparr>"
  by (simp add: attachChild_def fixtureStart_parentOf fixtureStart_parentOf [unfolded parentOf_def]
      fixtureStart_components newTransformComponent_def)


lemmas pass_defs = propagationPass_def updateIfDirty_def updateWorldTransform_def
  updateTransform_def composedWorld_def withNormalMatrix_def

lemma matMul_trs:
  "matMul (trsMatrix t s) (trsMatrix t' s') = trsMatrix (vec2 (+) t (vec2 (*) s t')) (vec2 (*) s s')"
  by (simp add: matMul_def trsMatrix_def vec2_def)

lemma identity4_trs: "identity4 = trsMatrix (Vector3 0 0 0) (Vector3 1 1 1)"
  by (simp add: identity4_def trsMatrix_def)

lemma matInv_identity4: "matInv (trsMatrix (Vector3 0 0 0) (Vector3 1 1 1)) = trsMatrix (Vector3 0 0 0) (Vector3 1 1 1)"
  by (simp add: matInv_def trsMatrix_def splice1_def upt_rec)

lemma reparentBefore_components:
  "\<exists>s. reparentBefore = Some s
     \<and> components s 0 = \<lparr>parent = None, children = [],
          transform = plainTransform (Vector3 0 0 0) identity4,
          worldTransform = plainTransform (Vector3 0 0 0) identity4,
          dirty = False, updated = True\<rparr>
     \<and> components s 2 = \<lparr>parent = None, children = [3],
          transform = plainTransform (Vector3 0 5 0) identity4,
          worldTransform = plainTransform (Vector3 0 5 0) (trsMatrix (Vector3 0 5 0) (Vector3 1 1 1)),
          dirty = False, updated = True\<rparr>
     \<and> components s 3 = \<lparr>parent = Some 2, children = [],
          transform = plainTransform (Vector3 5 0 0) identity4,
          worldTransform = plainTransform (Vector3 5 5 0) (trsMatrix (Vector3 5 5 0) (Vector3 1 1 1)),
          dirty = False, updated = True\<rparr>"
proof -
  from fixtureLinked obtain s0 where s0: "attachChild ratMath fixtureStart 2 3 False = Some s0"
    "components s0 0 = components fixtureStart 0"
    "components s0 2 = (components fixtureStart 2)\<lparr>children := [3]\<rparr>"
    "components s0 3 = (components fixtureStart 3)\<lparr>parent := Some 2\<rparr>"
    by blast
  note ev = pass_defs s0(2-) fixtureStart_components newTransformComponent_def
    plainTransform_def matMul_trs vec2_def
  have 0: "components (propagationPass ratMath s0 [0, 2, 3]) 0 = \<lparr>parent = None, children = [],
          transform = plainTransform (Vector3 0 0 0) identity4,
          worldTransform = plainTransform (Vector3 0 0 0) identity4,
          dirty = False, updated = True\<rparr>"
    by (simp add: ev) (simp add: identity4_trs)
  have 2: "components (propagationPass ratMath s0 [0, 2, 3]) 2 = \<lparr>parent = None, children = [3],
          transform = plainTransform (Vector3 0 5 0) identity4,
          worldTransform = plainTransform (Vector3 0 5 0) (trsMatrix (Vector3 0 5 0) (Vector3 1 1 1)),
          dirty = False, updated = True\<rparr>"
    by (simp add: ev)
  have 3: "components (propagationPass ratMath s0 [0, 2, 3]) 3 = \<lparr>parent = Some 2, children = [],
          transform = plainTransform (Vector3 5 0 0) identity4,
          worldTransform = plainTransform (Vector3 5 5 0) (trsMatrix (Vector3 5 5 0) (Vector3 1 1 1)),
          dirty = False, updated = True\<rparr>"
    by (simp add: ev)
  from s0(1) 0 2 3 show ?thesis by (simp add: reparentBefore_def)
qed


lemma reparentAfter_components:
  "\<exists>s. reparentAfter = Some s
     \<and> parent (components s 3) = Some 0
     \<and> transform (components s 3) = plainTransform (Vector3 5 0 0) identity4
     \<and> worldTransform (components s 3) =
         plainTransform (Vector3 5 0 0) (trsMatrix (Vector3 5 0 0) (Vector3 1 1 1))"
proof -
  from reparentBefore_components obtain s where s: "reparentBefore = Some s"
    "components s 0 = \<lparr>parent = None, children = [],
          transform = plainTransform (Vector3 0 0 0) identity4,
          worldTransform = plainTransform (Vector3 0 0 0) identity4,
          dirty = False, updated = True\<rparr>"
    "components s 2 = \<lparr>parent = None, children = [3],
          transform = plainTransform (Vector3 0 5 0) identity4,
          worldTransform = plainTransform (Vector3 0 5 0) (trsMatrix (Vector3 0 5 0) (Vector3 1 1 1)),
          dirty = False, updated = True\<rparr>"
    "components s 3 = \<lparr>parent = Some 2, children = [],
          transform = plainTransform (Vector3 5 0 0) identity4,
          worldTransform = plainTransform (Vector3 5 5 0) (trsMatrix (Vector3 5 5 0) (Vector3 1 1 1)),
          dirty = False, updated = True\<rparr>"
    by blast
  have loop: "ancestorLoop s (Some 0) 3 = Some False"
    by (simp add: parentOf_def s)
  have det: "components (detachChild ratMath s 2 3 False) 0 = components s 0"
    "components (detachChild ratMath s 2 3 False) 2 = (components s 2)\<lparr>children := []\<rparr>"
    "components (detachChild ratMath s 2 3 False) 3 = (components s 3)\<lparr>parent := None\<rparr>"
    by (simp_all add: detachChild_def s splice1_def)
  have kw: "components (keepWorld ratMath (detachChild ratMath s 2 3 False) 0 3) 0 = components s 0"
    "components (keepWorld ratMath (detachChild ratMath s 2 3 False) 0 3) 2 = (components s 2)\<lparr>children := []\<rparr>"
    "components (keepWorld ratMath (detachChild ratMath s 2 3 False) 0 3) 3 = (components s 3)\<lparr>parent := None\<rparr>"
    by (simp_all add: keepWorld_def Let_def pass_defs det s plainTransform_def vec2_def
        identity4_trs matInv_identity4 matMul_trs)
  define s' where "s' = modify 0 (\<lambda>c. c\<lparr>children := children c @ [3]\<rparr>)
    (modify 3 (\<lambda>c. c\<lparr>parent := Some 0\<rparr>)
       (keepWorld ratMath (detachChild ratMath s 2 3 False) 0 3))"
  have "attachChild ratMath s 0 3 True = Some s'"
    unfolding attachChild_def loop s'_def by (simp add: s(2-))
  moreover have "components s' 0 = (components s 0)\<lparr>children := [3]\<rparr>"
    "components s' 2 = (components s 2)\<lparr>children := []\<rparr>"
    "components s' 3 = (components s 3)\<lparr>parent := Some 0\<rparr>"
    by (simp_all add: s'_def kw s(2-))
  ultimately have s': "attachChild ratMath s 0 3 True = Some s'"
    "components s' 0 = (components s 0)\<lparr>children := [3]\<rparr>"
    "components s' 2 = (components s 2)\<lparr>children := []\<rparr>"
    "components s' 3 = (components s 3)\<lparr>parent := Some 0\<rparr>"
    by blast+
  note ev = pass_defs s'(2-) s(2-) plainTransform_def matMul_trs vec2_def identity4_trs
  have "parent (components (propagationPass ratMath s' [0, 2, 3]) 3) = Some 0"
    "transform (components (propagationPass ratMath s' [0, 2, 3]) 3) = plainTransform (Vector3 5 0 0) identity4"
    "worldTransform (components (propagationPass ratMath s' [0, 2, 3]) 3) =
         plainTransform (Vector3 5 0 0) (trsMatrix (Vector3 5 0 0) (Vector3 1 1 1))"
    by (simp_all add: ev)
  moreover have "reparentAfter = Some (propagationPass ratMath s' [0, 2, 3])"
    unfolding reparentAfter_def s(1) by (simp add: s'(1))
  ultimately show ?thesis by blast
qed

text \<open>
  Claim C1, evaluated on the scene above. Component \<open>3\<close> is a child of \<open>2\<close> and stands at
  (5, 5, 0) in the world. \<open>attachChild(3, keepTransform = true)\<close> on the root \<open>0\<close> detaches it
  without keeping its transform and composes the inverse of the new parent's world transform
  with the child's local transform, not with its world transform: the local translation stays
  (5, 0, 0), and after the propagation pass the child stands at (5, 0, 0).
\<close>

theorem attachChild_keepTransform_moves_reparented_child:
  "parentIn reparentBefore 3 = Some (Some 2)
   \<and> localTranslationIn reparentBefore 3 = Some (Vector3 5 0 0)
   \<and> worldTranslationIn reparentBefore 3 = Some (Vector3 5 5 0)
   \<and> worldTranslationIn reparentBefore 0 = Some (Vector3 0 0 0)
   \<and> parentIn reparentAfter 3 = Some (Some 0)
   \<and> localTranslationIn reparentAfter 3 = Some (Vector3 5 0 0)
   \<and> worldTranslationIn reparentAfter 3 = Some (Vector3 5 0 0)"
proof -
  from reparentBefore_components obtain s where s: "reparentBefore = Some s"
    "parent (components s 3) = Some 2"
    "translation (transform (components s 3)) = Vector3 5 0 0"
    "translation (worldTransform (components s 3)) = Vector3 5 5 0"
    "translation (worldTransform (components s 0)) = Vector3 0 0 0"
    by (auto simp: plainTransform_def)
  from reparentAfter_components obtain s' where s': "reparentAfter = Some s'"
    "parent (components s' 3) = Some 0"
    "translation (transform (components s' 3)) = Vector3 5 0 0"
    "translation (worldTransform (components s' 3)) = Vector3 5 0 0"
    by (auto simp: plainTransform_def)
  show ?thesis
    unfolding s(1) s'(1)
    by (simp add: parentIn_def localTranslationIn_def worldTranslationIn_def parentOf_def
        s(2-) s'(2-))
qed

subsection \<open>World transform, normal matrix and flags\<close>

text \<open>
  Claim C3. \<open>updateWorldTransform\<close> sets the world transform of a node with a parent to
  the composition of the parent's world transform with the local transform, and of a node
  without parent to a copy of the local transform; the normal matrix of the result is the
  transpose of the inverse of the world matrix when the world scale is not uniform
  (\<open>x \<noteq> y\<close> or \<open>x \<noteq> z\<close>) and the world matrix itself when it is.
\<close>

theorem updateWorldTransform_world_and_normal:
  "worldTransform (components (updateWorldTransform M s n) n) =
     (let w = (case parent (components s n) of
                 Some p \<Rightarrow> Transform_multiply M (worldTransform (components s p))
                             (transform (components s n))
               | None \<Rightarrow> transform (components s n))
      in w\<lparr>normalMatrix :=
            (if vx (scale w) \<noteq> vy (scale w) \<or> vx (scale w) \<noteq> vz (scale w)
             then Matrix4x4_transpose M (Matrix4x4_invert M (matrix w))
             else matrix w)\<rparr>)"
  by (simp add: updateWorldTransform_def composedWorld_def withNormalMatrix_def Let_def)

lemma scaledScene_3:
  "components scaledScene 3 = \<lparr>parent = None, children = [],
     transform = \<lparr>translation = Vector3 0 0 0, rotation = (), scale = Vector3 2 1 1,
       matrix = trsMatrix (Vector3 0 0 0) (Vector3 2 1 1), normalMatrix = identity4\<rparr>,
     worldTransform = Transform_new ratMath, dirty = True, updated = False\<rparr>"
  by (simp add: scaledScene_def updateTransform_def setScale_def freshScene_def
      newTransformComponent_def)

lemma normal_of_scaled:
  "transpose (matInv (trsMatrix (Vector3 0 0 0) (Vector3 2 1 1)))
     = [[1 / 2, 0, 0, 0], [0, 1, 0, 0], [0, 0, 1, 0], [0, 0, 0, 1]]"
  by (simp add: matInv_def trsMatrix_def splice1_def upt_rec transpose.simps)

text \<open>
  The two branches on concrete scenes: scale (2, 1, 1) gives the inverse transpose, the fresh
  component (scale (1, 1, 1)) the copy of its matrix.
\<close>

theorem updateWorldTransform_world_and_normal_witness:
  "worldTransform (components (updateWorldTransform ratMath scaledScene 3) 3) =
     \<lparr>translation = Vector3 0 0 0, rotation = (), scale = Vector3 2 1 1,
      matrix = [[2, 0, 0, 0], [0, 1, 0, 0], [0, 0, 1, 0], [0, 0, 0, 1]],
      normalMatrix = [[1 / 2, 0, 0, 0], [0, 1, 0, 0], [0, 0, 1, 0], [0, 0, 0, 1]]\<rparr>
   \<and> worldTransform (components (updateWorldTransform ratMath (freshScene ratMath) 3) 3) =
     \<lparr>translation = Vector3 0 0 0, rotation = (), scale = Vector3 1 1 1,
      matrix = identity4, normalMatrix = identity4\<rparr>"
  using updateWorldTransform_world_and_normal [of ratMath scaledScene 3]
    updateWorldTransform_world_and_normal [of ratMath "freshScene ratMath" 3]
  by (simp add: scaledScene_3 normal_of_scaled)
     (simp add: trsMatrix_def freshScene_def newTransformComponent_def)

text \<open>
  Claim C8. Each of \<open>setTranslation\<close>, \<open>setRotation\<close>, \<open>setScale\<close>, \<open>lookAt\<close>,
  \<open>addTranslation\<close> and \<open>addRotation\<close> leaves the dirty flag of its node set, whatever the
  arguments are (three scalars, a Vector3, an array, or anything else); \<open>updateWorldTransform\<close>
  leaves the dirty flag cleared and the updated flag set.
\<close>

theorem mutators_mark_dirty_update_cleans:
  "dirty (components (setTranslation M s n args) n)
   \<and> dirty (components (setRotation M s n args) n)
   \<and> dirty (components (setScale M s n args) n)
   \<and> dirty (components (lookAt M s n args) n)
   \<and> dirty (components (addTranslation M s n args) n)
   \<and> dirty (components (addRotation M s n args) n)
   \<and> \<not> dirty (components (updateWorldTransform M s n) n)
   \<and> updated (components (updateWorldTransform M s n) n)"
  by (simp add: setTranslation_def setRotation_def setScale_def lookAt_def
      addTranslation_def addRotation_def updateWorldTransform_def)

text \<open>
  Claim C9. A second \<open>updateWorldTransform\<close> right after the first changes nothing: the
  world transform, its normal matrix and the flags are those of the first call. The node must
  not be its own parent, which \<open>attachChild\<close> never produces.
\<close>

theorem updateWorldTransform_idempotent:
  assumes "parent (components s n) \<noteq> Some n"
  shows "updateWorldTransform M (updateWorldTransform M s n) n = updateWorldTransform M s n"
proof -
  have "composedWorld M (updateWorldTransform M s n) n = composedWorld M s n"
    using assms
    by (auto simp: composedWorld_def updateWorldTransform_def split: option.splits)
  then show ?thesis
    by (simp add: updateWorldTransform_def modify_def)
qed

text \<open>The scaled component has no parent; the theorem applies to it.\<close>

theorem updateWorldTransform_idempotent_witness:
  "parent (components scaledScene 3) \<noteq> Some 3
   \<and> updateWorldTransform ratMath (updateWorldTransform ratMath scaledScene 3) 3
       = updateWorldTransform ratMath scaledScene 3"
  using updateWorldTransform_idempotent [of scaledScene 3 ratMath]
  by (simp add: scaledScene_3)

subsection \<open>Rejected and accepted calls on concrete hierarchies\<close>

lemma not_ancestor_root: "P n = None \<Longrightarrow> n \<noteq> a \<Longrightarrow> \<not> ancestorOrSelf P n a"
  using ancestorOrSelf_unfold [of P n a] by simp

lemma not_ancestor_step:
  "P n = Some p \<Longrightarrow> n \<noteq> a \<Longrightarrow> \<not> ancestorOrSelf P p a \<Longrightarrow> \<not> ancestorOrSelf P n a"
  using ancestorOrSelf_unfold [of P n a] by simp

lemma freshScene_shape [simp]:
  "parentOf (freshScene M) n = None" "childrenOf (freshScene M) n = []"
  by (simp_all add: parentOf_def childrenOf_def freshScene_def newTransformComponent_def)

lemma chainScene_shape:
  "\<exists>s. chainScene = Some s \<and> treeInv s
     \<and> parentOf s 0 = None \<and> parentOf s 2 = Some 0 \<and> parentOf s 3 = Some 2
     \<and> childrenOf s 0 = [2] \<and> childrenOf s 2 = [3] \<and> childrenOf s 3 = []"
proof -
  let ?f = "freshScene ratMath"
  have na1: "\<not> ancestorOrSelf (parentOf ?f) 0 2"
    by (rule not_ancestor_root) simp_all
  from attachChild_accepted_shape [OF treeInv_freshScene na1, of ratMath False]
  obtain s1 where s1: "attachChild ratMath ?f 0 2 False = Some s1"
    "parentOf s1 = (parentOf ?f)(2 := Some 0)"
    "\<And>q. childrenOf s1 q =
       (if q = 0 then removeAll 2 (childrenOf ?f 0) @ [2] else removeAll 2 (childrenOf ?f q))"
    by blast
  from treeInv_freshScene na1 s1(2,3) have inv1: "treeInv s1" by (rule treeInv_link)
  have na2: "\<not> ancestorOrSelf (parentOf s1) 2 3"
    by (rule not_ancestor_step [where p = 0], simp add: s1, simp,
        rule not_ancestor_root, simp_all add: s1)
  from attachChild_accepted_shape [OF inv1 na2, of ratMath False]
  obtain s2 where s2: "attachChild ratMath s1 2 3 False = Some s2"
    "parentOf s2 = (parentOf s1)(3 := Some 2)"
    "\<And>q. childrenOf s2 q =
       (if q = 2 then removeAll 3 (childrenOf s1 2) @ [3] else removeAll 3 (childrenOf s1 q))"
    by blast
  from inv1 na2 s2(2,3) have inv2: "treeInv s2" by (rule treeInv_link)
  have "chainScene = Some s2" by (simp add: chainScene_def s1(1) s2(1))
  moreover have "parentOf s2 0 = None" "parentOf s2 2 = Some 0" "parentOf s2 3 = Some 2"
    "childrenOf s2 0 = [2]" "childrenOf s2 2 = [3]" "childrenOf s2 3 = []"
    by (simp_all add: s2 s1)
  ultimately show ?thesis using inv2 by blast
qed

text \<open>
  Claim C4. \<open>p.attachChild(c)\<close> with \<open>c\<close> being \<open>p\<close> or an ancestor of \<open>p\<close>, and
  \<open>p.detachChild(p)\<close>, return, write one warning to the console and change nothing else: the
  store of components is the same, so no parent pointer and no child list is modified.
\<close>

theorem rejected_calls_only_warn:
  "(ancestorOrSelf (parentOf s) p c \<longrightarrow>
      attachChild M s p c k = Some (s\<lparr>console := console s @
        [''attachChild: An object can't be added as a descendant of itself.'']\<rparr>))
   \<and> detachChild M s p p k = s\<lparr>console := console s @
        [''attachChild: An object can't be removed from itself.'']\<rparr>"
  by (simp add: attachChild_rejected detachChild_def warn_def)

text \<open>In the chain \<open>0\<close>, \<open>2\<close>, \<open>3\<close> the root \<open>0\<close> is an ancestor of \<open>3\<close>.\<close>

theorem rejected_calls_only_warn_witness:
  "\<exists>s. chainScene = Some s \<and> ancestorOrSelf (parentOf s) 3 0
     \<and> attachChild ratMath s 3 0 False = Some (s\<lparr>console := console s @
        [''attachChild: An object can't be added as a descendant of itself.'']\<rparr>)
     \<and> detachChild ratMath s 3 3 False = s\<lparr>console := console s @
        [''attachChild: An object can't be removed from itself.'']\<rparr>"
proof -
  from chainScene_shape obtain s where s: "chainScene = Some s"
    "parentOf s 2 = Some 0" "parentOf s 3 = Some 2" by blast
  have anc: "ancestorOrSelf (parentOf s) 3 0"
    using s(2,3) by (meson ancestorOrSelf.intros)
  with rejected_calls_only_warn [of s 3 0 ratMath False] s(1) show ?thesis by blast
qed

text \<open>
  Claim C5 as stated fails. In the chain \<open>0\<close>, \<open>2\<close>, \<open>3\<close> the node \<open>0\<close> is in the ancestor chain
  of \<open>3\<close>, and \<open>0.attachChild(3)\<close> moves \<open>3\<close> from \<open>2\<close> to \<open>0\<close>: the loop of \<open>attachChild\<close>
  rejects a child that is an ancestor of the receiver, not a receiver that is an ancestor of
  the child.
\<close>

theorem attachChild_to_ancestor_reparents:
  "parentIn chainScene 2 = Some (Some 0) \<and> parentIn chainScene 3 = Some (Some 2)
   \<and> childrenIn chainScene 0 = Some [2] \<and> childrenIn chainScene 2 = Some [3]
   \<and> parentIn chainMoved 3 = Some (Some 0)
   \<and> childrenIn chainMoved 0 = Some [2, 3] \<and> childrenIn chainMoved 2 = Some []"
proof -
  from chainScene_shape obtain s where s: "chainScene = Some s" "treeInv s"
    "parentOf s 0 = None" "parentOf s 2 = Some 0" "parentOf s 3 = Some 2"
    "childrenOf s 0 = [2]" "childrenOf s 2 = [3]" "childrenOf s 3 = []" by blast
  have na: "\<not> ancestorOrSelf (parentOf s) 0 3"
    by (rule not_ancestor_root) (simp_all add: s)
  from attachChild_accepted_shape [OF s(2) na, of ratMath False]
  obtain s' where s': "attachChild ratMath s 0 3 False = Some s'"
    "parentOf s' = (parentOf s)(3 := Some 0)"
    "\<And>q. childrenOf s' q =
       (if q = 0 then removeAll 3 (childrenOf s 0) @ [3] else removeAll 3 (childrenOf s q))"
    by blast
  have moved: "chainMoved = Some s'" by (simp add: chainMoved_def s(1) s'(1))
  show ?thesis unfolding moved s(1) by (simp add: parentIn_def childrenIn_def s s')
qed

text \<open>
  Claim C5, amended. For every node \<open>n\<close> and every node \<open>p\<close> in the ancestor chain of \<open>n\<close>
  (\<open>n\<close> itself included), \<open>n.attachChild(p)\<close> returns and leaves every parent pointer and
  every child list as it was.
\<close>

theorem attach_ancestor_as_child_keeps_shape:
  assumes "ancestorOrSelf (parentOf s) n p"
  shows "\<exists>s'. attachChild M s n p k = Some s'
          \<and> parentOf s' = parentOf s \<and> childrenOf s' = childrenOf s"
  using assms by (simp add: attachChild_rejected)

text \<open>Attaching the root \<open>0\<close> of the chain under its grandchild \<open>3\<close>.\<close>

theorem attach_ancestor_as_child_keeps_shape_witness:
  "\<exists>s s'. chainScene = Some s \<and> ancestorOrSelf (parentOf s) 3 0
     \<and> attachChild ratMath s 3 0 True = Some s'
     \<and> parentOf s' = parentOf s \<and> childrenOf s' = childrenOf s"
proof -
  from chainScene_shape obtain s where s: "chainScene = Some s"
    "parentOf s 2 = Some 0" "parentOf s 3 = Some 2" by blast
  have anc: "ancestorOrSelf (parentOf s) 3 0"
    using s(2,3) by (meson ancestorOrSelf.intros)
  from attach_ancestor_as_child_keeps_shape [OF anc, of ratMath True] s(1) anc
  show ?thesis by blast
qed

text \<open>
  The invariant on the chain \<open>0\<close>, \<open>2\<close>, \<open>3\<close>: the states of \<open>3\<close> and \<open>0\<close>, the accepted
  attach of \<open>3\<close> to \<open>0\<close> at the end of the child list, and the detach of \<open>3\<close> from \<open>2\<close>.
\<close>

theorem tree_consistent_after_calls_witness:
  "\<exists>s s'. run ratMath [Attach 0 2 False, Attach 2 3 False] (freshScene ratMath) = Some s
     \<and> attachedTo s 3 2 \<and> detached s 0 \<and> \<not> ancestorOrSelf (parentOf s) 0 3
     \<and> attachChild ratMath s 0 3 True = Some s' \<and> attachedTo s' 3 0
     \<and> childrenOf s' 0 = [2, 3]
     \<and> childrenOf (detachChild ratMath s 2 3 True) 2 = []"
proof -
  from chainScene_shape obtain s where s: "chainScene = Some s"
    "parentOf s 0 = None" "parentOf s 2 = Some 0" "parentOf s 3 = Some 2"
    "childrenOf s 0 = [2]" "childrenOf s 2 = [3]" "childrenOf s 3 = []" by blast
  have na: "\<not> ancestorOrSelf (parentOf s) 0 3"
    by (rule not_ancestor_root) (simp_all add: s)
  from tree_consistent_after_calls [of ratMath "[Attach 0 2 False, Attach 2 3 False]"]
  obtain t where all: "run ratMath [Attach 0 2 False, Attach 2 3 False] (freshScene ratMath) = Some t
    \<and> (\<forall>n. (detached t n \<and> (\<forall>p. \<not> attachedTo t n p))
            \<or> (\<not> detached t n \<and> (\<exists>!p. attachedTo t n p)))
    \<and> (\<forall>p c k. \<not> ancestorOrSelf (parentOf t) p c \<longrightarrow>
           (\<exists>s'. attachChild ratMath t p c k = Some s' \<and> attachedTo s' c p
              \<and> childrenOf s' p = removeAll c (childrenOf t p) @ [c]
              \<and> (\<forall>q. q \<noteq> p \<longrightarrow> childrenOf s' q = removeAll c (childrenOf t q))))
    \<and> (\<forall>p c k q. c \<noteq> p \<longrightarrow>
           childrenOf (detachChild ratMath t p c k) q =
             (if q = p then remove1 c (childrenOf t p) else childrenOf t q))"
    by (rule exE)
  note t = all [THEN conjunct1] all [THEN conjunct2, THEN conjunct1]
    all [THEN conjunct2, THEN conjunct2, THEN conjunct1]
    all [THEN conjunct2, THEN conjunct2, THEN conjunct2]
  have run_s: "run ratMath [Attach 0 2 False, Attach 2 3 False] (freshScene ratMath) = Some s"
    using s(1) unfolding chainScene_def .
  from t(1) have ts: "t = s" unfolding run_s by (simp only: option.inject)
  note cases = t(2) [unfolded ts, rule_format]
  note att = t(3) [unfolded ts, rule_format]
  note det = t(4) [unfolded ts, rule_format]
  have "\<not> detached s 3" using s(4) by (simp add: detached_def)
  with cases [of 3] have "\<exists>p. attachedTo s 3 p" by blast
  then obtain p where p: "attachedTo s 3 p" ..
  then have "parentOf s 3 = Some p" by (simp add: attachedTo_def)
  with s(4) p have a32: "attachedTo s 3 2" by simp
  have "\<not> attachedTo s 0 p" for p using s(2) by (simp add: attachedTo_def)
  with cases [of 0] have d0: "detached s 0" by blast
  from att [OF na, of True] obtain s' where s': "attachChild ratMath s 0 3 True = Some s'
     \<and> attachedTo s' 3 0 \<and> childrenOf s' 0 = removeAll 3 (childrenOf s 0) @ [3]
     \<and> (\<forall>q. q \<noteq> 0 \<longrightarrow> childrenOf s' q = removeAll 3 (childrenOf s q))" ..
  then have c0: "childrenOf s' 0 = [2, 3]" by (simp add: s(5))
  have c2: "childrenOf (detachChild ratMath s 2 3 True) 2 = []"
    by (simp add: det s(6))
  from run_s a32 d0 na s' c0 c2 show ?thesis by blast
qed

subsection \<open>Keeping the world transform\<close>

text \<open>
  Claim C6, evaluated. \<open>3\<close> is a child of \<open>2\<close>, not of \<open>0\<close>. \<open>0.detachChild(3, true)\<close> copies
  the world transform of \<open>3\<close> into its local transform before it looks \<open>3\<close> up in the child
  list of \<open>0\<close>: the local translation of \<open>3\<close> changes from (5, 0, 0) to (5, 5, 0) although
  \<open>3\<close> stays attached to \<open>2\<close>, and the next pass moves it to (5, 10, 0) in the world.
\<close>

theorem detachChild_keepTransform_rewrites_stranger:
  "childrenIn reparentBefore 0 = Some [] \<and> parentIn reparentBefore 3 = Some (Some 2)
   \<and> localTranslationIn reparentBefore 3 = Some (Vector3 5 0 0)
   \<and> worldTranslationIn reparentBefore 3 = Some (Vector3 5 5 0)
   \<and> parentIn strayDetach 3 = Some (Some 2)
   \<and> localTranslationIn strayDetach 3 = Some (Vector3 5 5 0)
   \<and> worldTranslationIn strayDetach 3 = Some (Vector3 5 10 0)"
proof -
  from reparentBefore_components obtain s where s: "reparentBefore = Some s"
    "components s 0 = \<lparr>parent = None, children = [],
          transform = plainTransform (Vector3 0 0 0) identity4,
          worldTransform = plainTransform (Vector3 0 0 0) identity4,
          dirty = False, updated = True\<rparr>"
    "components s 2 = \<lparr>parent = None, children = [3],
          transform = plainTransform (Vector3 0 5 0) identity4,
          worldTransform = plainTransform (Vector3 0 5 0) (trsMatrix (Vector3 0 5 0) (Vector3 1 1 1)),
          dirty = False, updated = True\<rparr>"
    "components s 3 = \<lparr>parent = Some 2, children = [],
          transform = plainTransform (Vector3 5 0 0) identity4,
          worldTransform = plainTransform (Vector3 5 5 0) (trsMatrix (Vector3 5 5 0) (Vector3 1 1 1)),
          dirty = False, updated = True\<rparr>"
    by blast
  have det: "components (detachChild ratMath s 0 3 True) 0 = components s 0"
    "components (detachChild ratMath s 0 3 True) 2 = components s 2"
    "components (detachChild ratMath s 0 3 True) 3 =
       (components s 3)\<lparr>transform := worldTransform (components s 3)\<rparr>"
    by (simp_all add: detachChild_def s)
  have stray: "strayDetach =
      Some (propagationPass ratMath (detachChild ratMath s 0 3 True) [0, 2, 3])"
    unfolding strayDetach_def s(1) by simp
  note ev = pass_defs det s(2-) plainTransform_def matMul_trs vec2_def identity4_trs
  show ?thesis
    unfolding stray s(1)
    by (simp add: parentIn_def childrenIn_def localTranslationIn_def worldTranslationIn_def
        parentOf_def childrenOf_def ev)
qed










subsection \<open>The flags across attach and detach\<close>

lemma detachChild_flags:
  "dirty (components (detachChild M s p c k) x) = dirty (components s x)"
  "updated (components (detachChild M s p c k) x) = updated (components s x)"
  by (auto simp: detachChild_def Let_def split: option.splits)

lemma keepWorld_flags_other:
  "x \<noteq> p \<Longrightarrow> dirty (components (keepWorld M s p c) x) = dirty (components s x)"
  "x \<noteq> p \<Longrightarrow> updated (components (keepWorld M s p c) x) = updated (components s x)"
  by (auto simp: keepWorld_def Let_def updateTransform_def updateWorldTransform_def)

lemma keepWorld_flags_parent:
  "\<not> dirty (components (keepWorld M s p c) p)" "updated (components (keepWorld M s p c) p)"
  by (auto simp: keepWorld_def Let_def updateTransform_def updateWorldTransform_def)

lemma unlinked_flags:
  "dirty (components (unlinked M s c) x) = dirty (components s x)"
  "updated (components (unlinked M s c) x) = updated (components s x)"
  by (simp_all add: unlinked_def detachChild_flags split: option.splits)

lemma link_flags:
  "dirty (components (modify p (\<lambda>n. n\<lparr>children := children n @ [c]\<rparr>)
     (modify c (\<lambda>n. n\<lparr>parent := Some p\<rparr>) u)) x) = dirty (components u x)"
  "updated (components (modify p (\<lambda>n. n\<lparr>children := children n @ [c]\<rparr>)
     (modify c (\<lambda>n. n\<lparr>parent := Some p\<rparr>) u)) x) = updated (components u x)"
  by (cases "x = p"; cases "x = c"; cases "p = c"; simp)+

lemma attachChild_cases:
  assumes "attachChild M s p c k = Some s'"
  shows "s' = warn ''attachChild: An object can't be added as a descendant of itself.'' s
    \<or> s' = modify p (\<lambda>n. n\<lparr>children := children n @ [c]\<rparr>)
            (modify c (\<lambda>n. n\<lparr>parent := Some p\<rparr>)
               (if k then keepWorld M (unlinked M s c) p c else unlinked M s c))"
  using assms
  by (simp only: attachChild_def unlinked_def parentOf_def Let_def split: option.splits bool.splits)
     auto

lemma attachChild_flags_of:
  assumes a: "attachChild M s p c k = Some s'"
  shows "(dirty (components s' x) = dirty (components s x)
          \<and> updated (components s' x) = updated (components s x))
     \<or> (k \<and> dirty (components s' x) = dirty (components (keepWorld M (unlinked M s c) p c) x)
          \<and> updated (components s' x) = updated (components (keepWorld M (unlinked M s c) p c) x))"
proof -
  from attachChild_cases [OF a] show ?thesis
  proof
    assume "s' = warn ''attachChild: An object can't be added as a descendant of itself.'' s"
    then show ?thesis by simp
  next
    assume s': "s' = modify p (\<lambda>n. n\<lparr>children := children n @ [c]\<rparr>)
            (modify c (\<lambda>n. n\<lparr>parent := Some p\<rparr>)
               (if k then keepWorld M (unlinked M s c) p c else unlinked M s c))"
    show ?thesis
    proof (cases k)
      case True
      with s' show ?thesis by (simp only: link_flags if_True simp_thms)
    next
      case False
      with s' show ?thesis by (simp only: link_flags if_False unlinked_flags simp_thms)
    qed
  qed
qed

text \<open>
  Claim C10 as stated fails. \<open>attachChild\<close> with \<open>keepTransform\<close> calls
  \<open>this.updateWorldTransform()\<close>: the receiver, dirty and not updated after construction,
  is clean and updated after the call.
\<close>

theorem attachChild_keepTransform_cleans_parent:
  "flagsIn (Some (freshScene ratMath)) 0 = Some (True, False)
   \<and> flagsIn freshAttachKeep 0 = Some (False, True)"
proof -
  let ?f = "freshScene ratMath"
  have r: "rooted (parentOf ?f) 0" by (rule rooted.root) simp
  have na: "\<not> ancestorOrSelf (parentOf ?f) 0 3" by (rule not_ancestor_root) simp_all
  show ?thesis
    unfolding freshAttachKeep_def attachChild_accepted [OF r na] flagsIn_def option.map
      link_flags
    by (simp add: keepWorld_flags_parent freshScene_def newTransformComponent_def)
qed

text \<open>
  Claim C10, amended. \<open>detachChild\<close> never modifies a dirty or updated flag. \<open>attachChild\<close>
  never modifies the flags of a node other than its receiver \<open>p\<close>, in particular not those of
  the child whose local transform it rewrites; it leaves the flags of \<open>p\<close> alone as well when
  \<open>keepTransform\<close> is false or when it rejects the child. An accepted \<open>attachChild\<close> with
  \<open>keepTransform\<close> leaves \<open>p\<close> not dirty and updated.
\<close>

theorem attach_detach_flags:
  "(attachChild M s p c k = Some s' \<longrightarrow>
      (\<forall>x. x \<noteq> p \<longrightarrow> dirty (components s' x) = dirty (components s x)
                     \<and> updated (components s' x) = updated (components s x)))
   \<and> (attachChild M s p c False = Some s' \<longrightarrow>
      (\<forall>x. dirty (components s' x) = dirty (components s x)
           \<and> updated (components s' x) = updated (components s x)))
   \<and> (ancestorOrSelf (parentOf s) p c \<and> attachChild M s p c k = Some s' \<longrightarrow>
      (\<forall>x. dirty (components s' x) = dirty (components s x)
           \<and> updated (components s' x) = updated (components s x)))
   \<and> (rooted (parentOf s) p \<and> \<not> ancestorOrSelf (parentOf s) p c
        \<and> attachChild M s p c True = Some s' \<longrightarrow>
      \<not> dirty (components s' p) \<and> updated (components s' p))
   \<and> (\<forall>x. dirty (components (detachChild M s p c k) x) = dirty (components s x)
          \<and> updated (components (detachChild M s p c k) x) = updated (components s x))"
proof (intro conjI impI allI)
  fix x
  assume a: "attachChild M s p c k = Some s'" and xp: "x \<noteq> p"
  from attachChild_flags_of [OF a, of x] xp
  show "dirty (components s' x) = dirty (components s x)"
    and "updated (components s' x) = updated (components s x)"
    by (auto simp: keepWorld_flags_other unlinked_flags)
next
  fix x
  assume a: "attachChild M s p c False = Some s'"
  from attachChild_flags_of [OF a, of x]
  show "dirty (components s' x) = dirty (components s x)"
    and "updated (components s' x) = updated (components s x)"
    by auto
next
  fix x
  assume "ancestorOrSelf (parentOf s) p c \<and> attachChild M s p c k = Some s'"
  then show "dirty (components s' x) = dirty (components s x)"
    and "updated (components s' x) = updated (components s x)"
    by (auto simp: attachChild_rejected)
next
  assume a: "rooted (parentOf s) p \<and> \<not> ancestorOrSelf (parentOf s) p c
        \<and> attachChild M s p c True = Some s'"
  then have "s' = modify p (\<lambda>n. n\<lparr>children := children n @ [c]\<rparr>)
            (modify c (\<lambda>n. n\<lparr>parent := Some p\<rparr>) (keepWorld M (unlinked M s c) p c))"
    using attachChild_accepted [of s p c M True] by simp
  then show "\<not> dirty (components s' p)" and "updated (components s' p)"
    by (simp_all only: link_flags keepWorld_flags_parent simp_thms)
qed (simp_all add: detachChild_flags)

text \<open>On the fresh scene: the child \<open>3\<close> keeps its flags, the receiver \<open>0\<close> is cleaned.\<close>

theorem attach_detach_flags_witness:
  "\<exists>s'. attachChild ratMath (freshScene ratMath) 0 3 True = Some s'
     \<and> dirty (components s' 3) \<and> \<not> updated (components s' 3)
     \<and> \<not> dirty (components s' 0) \<and> updated (components s' 0)
     \<and> dirty (components (detachChild ratMath (freshScene ratMath) 0 3 True) 3)"
proof -
  let ?f = "freshScene ratMath"
  have r: "rooted (parentOf ?f) 0" by (rule rooted.root) simp
  have na: "\<not> ancestorOrSelf (parentOf ?f) 0 3" by (rule not_ancestor_root) simp_all
  from attachChild_accepted [OF r na, of ratMath True]
  obtain s' where s': "attachChild ratMath ?f 0 3 True = Some s'" by blast
  have fresh: "dirty (components ?f n)" "\<not> updated (components ?f n)" for n
    by (simp_all add: freshScene_def newTransformComponent_def)
  from attach_detach_flags [of ratMath ?f 0 3 True s'] s' r na fresh [of 3]
  show ?thesis by auto
qed

end
